theory Spec2Isabelle
  imports Main "HOL-Library.AList"
begin

section \<open>Time values\<close>

text \<open>
  A Go \<^verbatim>\<open>time.Time\<close> is modelled by the instant it denotes: the number of nanoseconds
  since the zero time (January 1, year 1, 00:00:00 UTC).  All comparisons of the program
  (\<^verbatim>\<open>After\<close>, \<^verbatim>\<open>Before\<close>, \<^verbatim>\<open>Equal\<close>, \<^verbatim>\<open>IsZero\<close>) and \<^verbatim>\<open>Truncate\<close> depend on the
  instant only; the location of a time is presentation.  A \<^verbatim>\<open>time.Duration\<close> is a
  signed 64-bit count of nanoseconds.
\<close>

type_synonym Time = int
type_synonym Duration = int

definition Second :: Duration where
  "Second = 1000000000"

definition Minute :: Duration where
  "Minute = 60 * Second"

definition Hour :: Duration where
  "Hour = 60 * Minute"

definition maxDuration :: Duration where
  "maxDuration = 2 ^ 63 - 1"

definition minDuration :: Duration where
  "minDuration = - (2 ^ 63)"

definition IsZero :: "Time \<Rightarrow> bool" where
  "IsZero t = (t = 0)"

definition After :: "Time \<Rightarrow> Time \<Rightarrow> bool" where
  "After t u = (u < t)"

definition Before :: "Time \<Rightarrow> Time \<Rightarrow> bool" where
  "Before t u = (t < u)"

definition Equal :: "Time \<Rightarrow> Time \<Rightarrow> bool" where
  "Equal t u = (t = u)"

definition Add :: "Time \<Rightarrow> Duration \<Rightarrow> Time" where
  "Add t d = t + d"

text \<open>\<^verbatim>\<open>t.Sub(u)\<close> saturates at the largest and smallest duration.\<close>

definition Sub :: "Time \<Rightarrow> Time \<Rightarrow> Duration" where
  "Sub t u =
     (if maxDuration < t - u then maxDuration
      else if t - u < minDuration then minDuration
      else t - u)"

text \<open>
  \<^verbatim>\<open>t.Truncate(d)\<close> rounds the absolute time since the zero time down to a multiple
  of \<open>d\<close>, and returns \<open>t\<close> unchanged for \<open>d \<le> 0\<close>.
\<close>

definition Truncate :: "Time \<Rightarrow> Duration \<Rightarrow> Time" where
  "Truncate t d = (if d \<le> 0 then t else t - t mod d)"

text \<open>
  Go's integer division truncates towards zero and panics on a zero divisor
  (\<open>None\<close> is the panic).
\<close>

definition quo :: "int \<Rightarrow> int \<Rightarrow> int option" where
  "quo a b = (if b = 0 then None else Some (sgn a * sgn b * (\<bar>a\<bar> div \<bar>b\<bar>)))"

section \<open>Events\<close>

record CalendarEvent =
  ID :: string
  StartTime :: Time
  EndTime :: Time
  TimeZone :: string
  Description :: string

record LocalEvent =
  Event :: CalendarEvent
  StartAnnounced :: bool
  CheckStartAnnounced :: bool
  EndAnnounced :: bool
  LastTimeReminded :: Time

section \<open>Configuration\<close>

record Config =
  DebugLogEnabled :: bool
  EventsPath :: string
  NotificationRepeats :: int

definition DefaultNotificationRepeats :: int where
  "DefaultNotificationRepeats = 3"

datatype error =
    DecodeFailed
  | ReadDirFailed
  | ReadFileFailed string
  | UnmarshalFailed string
  | LoadEventFailed string error
  | MarshalFailed
  | WriteFileFailed
  | MkdirFailed
  | RenameFailed
  | RemoveFailed string

text \<open>
  \<^verbatim>\<open>loadConfig\<close>: the argument is what the YAML decoder yields for the configuration
  file (\<open>None\<close> when decoding fails); the result is the new value of \<^verbatim>\<open>SysConfig\<close>.
  The secrets part of the function does not touch \<^verbatim>\<open>SysConfig\<close>.
\<close>

definition loadConfig :: "Config option \<Rightarrow> error + Config" where
  "loadConfig decoded =
     (case decoded of
        None \<Rightarrow> Inl DecodeFailed
      | Some c \<Rightarrow>
          if NotificationRepeats c \<le> 0
          then Inr (c\<lparr>NotificationRepeats := DefaultNotificationRepeats\<rparr>)
          else Inr c)"

section \<open>Schedule predicates of a local event\<close>

text \<open>
  Every function that reads the clock takes the reading \<open>now\<close> as an argument: one
  evaluation of an event is taken at one instant.
\<close>

definition scheduledForNow :: "Time \<Rightarrow> LocalEvent \<Rightarrow> bool" where
  "scheduledForNow now e =
     (if IsZero (StartTime (Event e)) then False
      else if After now (StartTime (Event e)) \<and> Before now (EndTime (Event e)) then True
      else False)"

definition scheduledNearEnd :: "Time \<Rightarrow> LocalEvent \<Rightarrow> bool" where
  "scheduledNearEnd now e =
     (if IsZero (EndTime (Event e)) then False
      else if After now (Add (EndTime (Event e)) (- Minute))
              \<and> Before now (Add (EndTime (Event e)) Minute) then True
      else False)"

definition scheduledForToday :: "Time \<Rightarrow> LocalEvent \<Rightarrow> bool" where
  "scheduledForToday now e =
     Equal (Truncate (StartTime (Event e)) (24 * Hour)) (Truncate now (24 * Hour))"

section \<open>The four conditions of the reminder loop\<close>

definition shouldAnnounceEventStart :: "Time \<Rightarrow> LocalEvent \<Rightarrow> bool" where
  "shouldAnnounceEventStart now e =
     (if \<not> StartAnnounced e \<and> scheduledForToday now e \<and> scheduledForNow now e then True
      else False)"

definition shouldCheckEventStarted :: "Time \<Rightarrow> LocalEvent \<Rightarrow> bool" where
  "shouldCheckEventStarted now e =
     (if \<not> scheduledForToday now e \<or> \<not> StartAnnounced e \<or> CheckStartAnnounced e then False
      else if After now (Add (StartTime (Event e)) Minute) then True
      else False)"

definition shouldAnnounceEventEnd :: "Time \<Rightarrow> LocalEvent \<Rightarrow> bool" where
  "shouldAnnounceEventEnd now e =
     (if \<not> EndAnnounced e \<and> scheduledForToday now e \<and> scheduledNearEnd now e then True
      else False)"

text \<open>
  \<^verbatim>\<open>shouldRemindEvent\<close> divides by the configured repeat count; \<open>None\<close> is the
  run-time panic of a division by zero.
\<close>

definition shouldRemindEvent :: "Config \<Rightarrow> Time \<Rightarrow> LocalEvent \<Rightarrow> bool option" where
  "shouldRemindEvent cfg now e =
     (if EndAnnounced e \<or> IsZero (EndTime (Event e))
         \<or> Before now (StartTime (Event e)) \<or> After now (EndTime (Event e))
      then Some False
      else
        (case quo (Sub (EndTime (Event e)) (StartTime (Event e))) (NotificationRepeats cfg) of
           None \<Rightarrow> None
         | Some reminderInterval \<Rightarrow>
             if After now (Add (LastTimeReminded e) reminderInterval) then Some True
             else Some False))"

section \<open>Files\<close>

text \<open>
  The file system is a finite table from cleaned, rooted slash-separated paths (lists of
  components, \<open>[]\<close> being the root directory) to nodes.  A regular file holds either the
  JSON text of a \<^verbatim>\<open>LocalEvent\<close> or bytes that \<^verbatim>\<open>json.Unmarshal\<close> rejects.  The
  operations below are the calls of the packages \<^verbatim>\<open>os\<close>, \<^verbatim>\<open>path\<close>, \<^verbatim>\<open>strings\<close> and
  \<^verbatim>\<open>encoding/json\<close> that the event store makes; they fail only for reasons visible in
  the table (a missing file, a missing parent directory, a directory in place of a file).
  \<^verbatim>\<open>os.ReadDir\<close> lists the entries in the order of the table.
\<close>

datatype content = Json LocalEvent | Garbage string

datatype node = File content | Dir

type_synonym path = "string list"

type_synonym FS = "(path \<times> node) list"

definition stat :: "FS \<Rightarrow> path \<Rightarrow> node option" where
  "stat fs p = (if p = [] then Some Dir else map_of fs p)"

fun splitSlash :: "string \<Rightarrow> string list" where
  "splitSlash [] = [[]]"
| "splitSlash (c # cs) =
     (if c = CHR ''/'' then [] # splitSlash cs
      else (case splitSlash cs of [] \<Rightarrow> [[c]] | w # ws \<Rightarrow> (c # w) # ws))"

definition cleanStep :: "path \<Rightarrow> string \<Rightarrow> path" where
  "cleanStep acc c =
     (if c = [] \<or> c = ''.'' then acc
      else if c = ''..'' then butlast acc
      else acc @ [c])"

text \<open>
  \<^verbatim>\<open>path.Join(dir, name)\<close> for a cleaned rooted \<open>dir\<close>: the elements are joined by a
  slash and the result is cleaned (empty and \<^verbatim>\<open>.\<close> components dropped, \<^verbatim>\<open>..\<close> removing the
  component before it, and nothing above the root).
\<close>

definition path_Join :: "path \<Rightarrow> string \<Rightarrow> path" where
  "path_Join dir name = foldl cleanStep dir (splitSlash name)"

definition strings_HasSuffix :: "string \<Rightarrow> string \<Rightarrow> bool" where
  "strings_HasSuffix s suffix =
     (length suffix \<le> length s \<and> drop (length s - length suffix) s = suffix)"

definition strings_TrimSuffix :: "string \<Rightarrow> string \<Rightarrow> string" where
  "strings_TrimSuffix s suffix =
     (if strings_HasSuffix s suffix then take (length s - length suffix) s else s)"

definition os_ReadFile :: "FS \<Rightarrow> path \<Rightarrow> error + content" where
  "os_ReadFile fs p =
     (case stat fs p of
        Some (File c) \<Rightarrow> Inr c
      | _ \<Rightarrow> Inl (ReadFileFailed []))"

text \<open>
  \<^verbatim>\<open>os.WriteFile\<close> creates or truncates the file and writes the data; it needs the
  parent directory and cannot replace a directory.
\<close>

definition os_WriteFile :: "FS \<Rightarrow> path \<Rightarrow> content \<Rightarrow> error + FS" where
  "os_WriteFile fs p c =
     (if p \<noteq> [] \<and> stat fs (butlast p) = Some Dir \<and> stat fs p \<noteq> Some Dir
      then Inr (AList.update p (File c) fs)
      else Inl WriteFileFailed)"

text \<open>An entry of a listing: its name and whether it is a directory.\<close>

definition os_ReadDir :: "FS \<Rightarrow> path \<Rightarrow> error + (string \<times> bool) list" where
  "os_ReadDir fs p =
     (if stat fs p = Some Dir
      then Inr [(last q, stat fs q = Some Dir). q \<leftarrow> remdups (map fst fs), q \<noteq> [], butlast q = p]
      else Inl ReadDirFailed)"

text \<open>\<^verbatim>\<open>os.Remove\<close> removes a file or an empty directory.\<close>

definition os_Remove :: "FS \<Rightarrow> path \<Rightarrow> error + FS" where
  "os_Remove fs p =
     (case stat fs p of
        Some (File c) \<Rightarrow> Inr (AList.delete p fs)
      | Some Dir \<Rightarrow>
          if p = [] \<or> list_ex (\<lambda>q. q \<noteq> [] \<and> butlast q = p) (map fst fs)
          then Inl (RemoveFailed [])
          else Inr (AList.delete p fs)
      | None \<Rightarrow> Inl (RemoveFailed []))"

text \<open>
  \<^verbatim>\<open>os.MkdirAll\<close> creates the directory and every missing parent; it fails, creating
  nothing, when the path or one of its parents is a regular file.
\<close>

fun prefixes_of :: "path \<Rightarrow> path list" where
  "prefixes_of [] = []"
| "prefixes_of (c # cs) = [c] # map ((#) c) (prefixes_of cs)"

definition mkdirs :: "FS \<Rightarrow> path list \<Rightarrow> FS" where
  "mkdirs fs ps = foldl (\<lambda>f q. if stat f q = None then AList.update q Dir f else f) fs ps"

definition os_MkdirAll :: "FS \<Rightarrow> path \<Rightarrow> error + FS" where
  "os_MkdirAll fs p =
     (if list_ex (\<lambda>q. case stat fs q of Some (File c) \<Rightarrow> True | _ \<Rightarrow> False) (prefixes_of p)
      then Inl MkdirFailed
      else Inr (mkdirs fs (prefixes_of p)))"

text \<open>\<^verbatim>\<open>os.IsNotExist\<close> of the error of \<^verbatim>\<open>os.Stat\<close>.\<close>

definition notExist :: "FS \<Rightarrow> path \<Rightarrow> bool" where
  "notExist fs p = (stat fs p = None)"

text \<open>
  \<^verbatim>\<open>json.MarshalIndent\<close> of a \<^verbatim>\<open>LocalEvent\<close> fails only when a time field has a year
  outside 0..9999 (taken in UTC here); \<^verbatim>\<open>json.Unmarshal\<close> gives back the instants.
\<close>

definition jsonTime :: "Time \<Rightarrow> bool" where
  "jsonTime t = (- 366 * (24 * Hour) \<le> t \<and> t < 3652059 * (24 * Hour))"

definition json_MarshalIndent :: "LocalEvent \<Rightarrow> error + content" where
  "json_MarshalIndent e =
     (if jsonTime (StartTime (Event e)) \<and> jsonTime (EndTime (Event e))
         \<and> jsonTime (LastTimeReminded e)
      then Inr (Json e) else Inl MarshalFailed)"

definition json_Unmarshal :: "content \<Rightarrow> LocalEvent option" where
  "json_Unmarshal c = (case c of Json e \<Rightarrow> Some e | Garbage bytes \<Rightarrow> None)"

section \<open>The event store\<close>

text \<open>
  The functions of the store take the directory \<open>eventPath\<close>, the value of
  \<^verbatim>\<open>realPath(SysConfig.EventsPath)\<close>, and the file system, and return the file system
  they leave behind.  An \<open>error option\<close> is a Go \<^verbatim>\<open>error\<close>, \<open>None\<close> being \<^verbatim>\<open>nil\<close>.
\<close>

definition loadEvent :: "path \<Rightarrow> FS \<Rightarrow> string \<Rightarrow> error + LocalEvent" where
  "loadEvent eventDir fs name =
     (case os_ReadFile fs (path_Join eventDir name) of
        Inl err \<Rightarrow> Inl (ReadFileFailed name)
      | Inr eJson \<Rightarrow>
          (case json_Unmarshal eJson of
             None \<Rightarrow> Inl (UnmarshalFailed name)
           | Some e \<Rightarrow> Inr e))"

definition saveEventLocally :: "path \<Rightarrow> FS \<Rightarrow> CalendarEvent \<Rightarrow> error option \<times> FS" where
  "saveEventLocally eventPath fs0 event =
     (let fs = (if notExist fs0 eventPath
                then (case os_MkdirAll fs0 eventPath of Inl err \<Rightarrow> fs0 | Inr fs1 \<Rightarrow> fs1)
                else fs0);
          e = \<lparr>Event = event, StartAnnounced = False, CheckStartAnnounced = False,
               EndAnnounced = False, LastTimeReminded = 0\<rparr>;
          e = (case loadEvent eventPath fs (ID (Event e) @ ''.json'') of
                 Inr existingEvent \<Rightarrow>
                   e\<lparr>StartAnnounced := StartAnnounced existingEvent,
                     CheckStartAnnounced := CheckStartAnnounced existingEvent,
                     EndAnnounced := EndAnnounced existingEvent,
                     LastTimeReminded := LastTimeReminded existingEvent\<rparr>
               | Inl err \<Rightarrow> e)
      in case json_MarshalIndent e of
           Inl err \<Rightarrow> (Some MarshalFailed, fs)
         | Inr eJson \<Rightarrow>
             (case os_WriteFile fs (path_Join eventPath (ID (Event e) @ ''.json'')) eJson of
                Inl err \<Rightarrow> (Some err, fs)
              | Inr fs' \<Rightarrow> (None, fs')))"

text \<open>
  \<^verbatim>\<open>t.In(loc)\<close> changes the location of a time, not its instant.
\<close>

definition In :: "Time \<Rightarrow> string \<Rightarrow> Time" where
  "In t loc = t"

fun loadTodayEvents_loop ::
  "path \<Rightarrow> Time \<Rightarrow> FS \<Rightarrow> (string \<times> bool) list \<Rightarrow> LocalEvent list \<Rightarrow> error + LocalEvent list" where
  "loadTodayEvents_loop eventDir now fs [] events = Inr events"
| "loadTodayEvents_loop eventDir now fs (file # files) events =
     (case loadEvent eventDir fs (fst file) of
        Inl err \<Rightarrow> Inl (LoadEventFailed (fst file) err)
      | Inr e \<Rightarrow>
          if \<not> scheduledForToday now e \<or> After now (EndTime (Event e))
          then loadTodayEvents_loop eventDir now fs files events
          else if TimeZone (Event e) \<noteq> []
          then
            (let loc = TimeZone (Event e);
                 e = e\<lparr>Event := (Event e)\<lparr>StartTime := In (StartTime (Event e)) loc,
                                           EndTime := In (EndTime (Event e)) loc\<rparr>,
                       LastTimeReminded := In (LastTimeReminded e) loc\<rparr>
             in if After now (EndTime (Event e))
                then loadTodayEvents_loop eventDir now fs files events
                else loadTodayEvents_loop eventDir now fs files (events @ [e]))
          else loadTodayEvents_loop eventDir now fs files (events @ [e]))"

definition loadTodayEvents :: "path \<Rightarrow> Time \<Rightarrow> FS \<Rightarrow> error + LocalEvent list" where
  "loadTodayEvents eventDir now fs =
     (case os_ReadDir fs eventDir of
        Inl err \<Rightarrow> Inl ReadDirFailed
      | Inr files \<Rightarrow> loadTodayEvents_loop eventDir now fs files [])"

fun removeLocalEvents_loop ::
  "path \<Rightarrow> CalendarEvent list \<Rightarrow> (string \<times> bool) list \<Rightarrow> FS \<Rightarrow> error option \<times> FS" where
  "removeLocalEvents_loop eventPath events [] fs = (None, fs)"
| "removeLocalEvents_loop eventPath events (file # files) fs =
     (if \<not> snd file \<and> strings_HasSuffix (fst file) ''.json''
      then
        (let id = strings_TrimSuffix (fst file) ''.json'';
             found = list_ex (\<lambda>event. ID event = id) events
         in if \<not> found
            then (case os_Remove fs (path_Join eventPath (fst file)) of
                    Inl err \<Rightarrow> (Some (RemoveFailed id), fs)
                  | Inr fs' \<Rightarrow> removeLocalEvents_loop eventPath events files fs')
            else removeLocalEvents_loop eventPath events files fs)
      else removeLocalEvents_loop eventPath events files fs)"

definition removeLocalEventsNotInCalendar ::
  "path \<Rightarrow> FS \<Rightarrow> CalendarEvent list \<Rightarrow> error option \<times> FS" where
  "removeLocalEventsNotInCalendar eventPath fs events =
     (case os_ReadDir fs eventPath of
        Inl err \<Rightarrow> (Some ReadDirFailed, fs)
      | Inr files \<Rightarrow> removeLocalEvents_loop eventPath events files fs)"

fun syncLocalEvents_loop :: "path \<Rightarrow> FS \<Rightarrow> CalendarEvent list \<Rightarrow> error option \<times> FS" where
  "syncLocalEvents_loop eventPath fs [] = (None, fs)"
| "syncLocalEvents_loop eventPath fs (event # events) =
     (case saveEventLocally eventPath fs event of
        (Some err, fs') \<Rightarrow> (Some err, fs')
      | (None, fs') \<Rightarrow> syncLocalEvents_loop eventPath fs' events)"

definition syncLocalEvents :: "path \<Rightarrow> FS \<Rightarrow> CalendarEvent list \<Rightarrow> error option \<times> FS" where
  "syncLocalEvents eventPath fs events =
     (case syncLocalEvents_loop eventPath fs events of
        (Some err, fs') \<Rightarrow> (Some err, fs')
      | (None, fs') \<Rightarrow> removeLocalEventsNotInCalendar eventPath fs' events)"

definition updateEvent :: "path \<Rightarrow> FS \<Rightarrow> LocalEvent \<Rightarrow> error option \<times> FS" where
  "updateEvent eventPath fs e =
     (case json_MarshalIndent e of
        Inl err \<Rightarrow> (Some MarshalFailed, fs)
      | Inr eJson \<Rightarrow>
          (case os_WriteFile fs (path_Join eventPath (ID (Event e) @ ''.json'')) eJson of
             Inl err \<Rightarrow> (Some err, fs)
           | Inr fs' \<Rightarrow> (None, fs')))"

text \<open>
  The setters change the receiver and write it; they return the changed receiver, the
  error and the file system.
\<close>

definition setStartAnnounced ::
  "path \<Rightarrow> FS \<Rightarrow> LocalEvent \<Rightarrow> LocalEvent \<times> error option \<times> FS" where
  "setStartAnnounced eventPath fs e =
     (let e = e\<lparr>StartAnnounced := True\<rparr> in (e, updateEvent eventPath fs e))"

definition setStartChecked ::
  "path \<Rightarrow> FS \<Rightarrow> LocalEvent \<Rightarrow> LocalEvent \<times> error option \<times> FS" where
  "setStartChecked eventPath fs e =
     (let e = e\<lparr>CheckStartAnnounced := True\<rparr> in (e, updateEvent eventPath fs e))"

definition setEndAnnounced ::
  "path \<Rightarrow> FS \<Rightarrow> LocalEvent \<Rightarrow> LocalEvent \<times> error option \<times> FS" where
  "setEndAnnounced eventPath fs e =
     (let e = e\<lparr>EndAnnounced := True\<rparr> in (e, updateEvent eventPath fs e))"

definition setReminded ::
  "path \<Rightarrow> Time \<Rightarrow> FS \<Rightarrow> LocalEvent \<Rightarrow> LocalEvent \<times> error option \<times> FS" where
  "setReminded eventPath now fs e =
     (let e = e\<lparr>LastTimeReminded := now\<rparr> in (e, updateEvent eventPath fs e))"

section \<open>The reminder loop\<close>

text \<open>
  \<^verbatim>\<open>reminder.go\<close> holds two versions of \<^verbatim>\<open>remindCurrentEvents\<close>; this is the later
  one, which has the start check and leaves the iteration after every announcement.

  What \<^verbatim>\<open>announceTask\<close> is called for: the kind of the message rendered.  The body of
  the loop of \<^verbatim>\<open>remindCurrentEvents\<close> returns the file system and the announcements it
  made for one event, in order; \<open>None\<close> is a panic.  Errors of the setters are dropped, as
  in the source.
\<close>

datatype Notification = AnnounceStart | CheckStarted | Remind | AnnounceEnd

definition remindEvent ::
  "path \<Rightarrow> Config \<Rightarrow> Time \<Rightarrow> FS \<Rightarrow> LocalEvent \<Rightarrow> (FS \<times> Notification list) option" where
  "remindEvent eventPath cfg now fs e =
     (if shouldAnnounceEventStart now e
      then
        (let (e, err, fs) = setStartAnnounced eventPath fs e;
             (e, err, fs) = setReminded eventPath now fs e
         in Some (fs, [AnnounceStart]))
      else if shouldCheckEventStarted now e
      then
        (let (e, err, fs) = setStartChecked eventPath fs e
         in Some (fs, [CheckStarted]))
      else
        (case shouldRemindEvent cfg now e of
           None \<Rightarrow> None
         | Some True \<Rightarrow>
             (let (e, err, fs) = setReminded eventPath now fs e
              in Some (fs, [Remind]))
         | Some False \<Rightarrow>
             if shouldAnnounceEventEnd now e
             then
               (let (e, err, fs) = setEndAnnounced eventPath fs e
                in Some (fs, [AnnounceEnd]))
             else Some (fs, [])))"

fun remindCurrentEvents_loop ::
  "path \<Rightarrow> Config \<Rightarrow> Time \<Rightarrow> FS \<Rightarrow> LocalEvent list \<Rightarrow> (string \<times> Notification) list
     \<Rightarrow> (FS \<times> (string \<times> Notification) list) option" where
  "remindCurrentEvents_loop eventPath cfg now fs [] spoken = Some (fs, spoken)"
| "remindCurrentEvents_loop eventPath cfg now fs (e # events) spoken =
     (case remindEvent eventPath cfg now fs e of
        None \<Rightarrow> None
      | Some (fs', ns) \<Rightarrow>
          remindCurrentEvents_loop eventPath cfg now fs' events
            (spoken @ map (\<lambda>n. (ID (Event e), n)) ns))"

definition remindCurrentEvents ::
  "path \<Rightarrow> Config \<Rightarrow> Time \<Rightarrow> FS \<Rightarrow> (FS \<times> (string \<times> Notification) list) option" where
  "remindCurrentEvents eventPath cfg now fs =
     (let events = (case loadTodayEvents eventPath now fs of
                      Inl err \<Rightarrow> []
                    | Inr events \<Rightarrow> events)
      in remindCurrentEvents_loop eventPath cfg now fs events [])"

section \<open>Writes that are stopped half way\<close>

text \<open>
  \<^verbatim>\<open>os.WriteFile\<close> is not one step: it opens the file with \<^verbatim>\<open>O_CREATE|O_TRUNC\<close>,
  which creates an empty file or empties the existing one, and then writes the data.
  The file systems that a stop of the process can leave behind are the one before the
  call, the one after the truncation and the one after the write.
\<close>

definition os_WriteFile_crash :: "FS \<Rightarrow> path \<Rightarrow> content \<Rightarrow> FS list" where
  "os_WriteFile_crash fs p c =
     (case os_WriteFile fs p (Garbage []) of
        Inl err \<Rightarrow> [fs]
      | Inr truncated \<Rightarrow> [fs, truncated, AList.update p (File c) truncated])"

definition updateEvent_crash :: "path \<Rightarrow> FS \<Rightarrow> LocalEvent \<Rightarrow> FS list" where
  "updateEvent_crash eventPath fs e =
     (case json_MarshalIndent e of
        Inl err \<Rightarrow> [fs]
      | Inr eJson \<Rightarrow>
          os_WriteFile_crash fs (path_Join eventPath (ID (Event e) @ ''.json'')) eJson)"

text \<open>
  \<^verbatim>\<open>os.Rename\<close> of a regular file replaces the target in one step.  (The program renames
  only files it has just written.)
\<close>

definition os_Rename :: "FS \<Rightarrow> path \<Rightarrow> path \<Rightarrow> error + FS" where
  "os_Rename fs oldpath newpath =
     (case stat fs oldpath of
        Some (File c) \<Rightarrow>
          if newpath \<noteq> [] \<and> stat fs (butlast newpath) = Some Dir
             \<and> stat fs newpath \<noteq> Some Dir
          then Inr (AList.update newpath (File c) (AList.delete oldpath fs))
          else Inl RenameFailed
      | _ \<Rightarrow> Inl RenameFailed)"

text \<open>
  \<^verbatim>\<open>writeFileAtomically\<close> of \<^verbatim>\<open>utils.go\<close>; \<open>rnd\<close> is the decimal text of
  \<^verbatim>\<open>rand.Int63()\<close>.  The temporary file is a sibling of the target.
\<close>

definition tempPath :: "path \<Rightarrow> string \<Rightarrow> path" where
  "tempPath p rnd =
     (if p = [] then [''.tmp.'' @ rnd] else butlast p @ [last p @ ''.tmp.'' @ rnd])"

definition writeFileAtomically :: "FS \<Rightarrow> path \<Rightarrow> content \<Rightarrow> string \<Rightarrow> error option \<times> FS" where
  "writeFileAtomically fs p data rnd =
     (case os_WriteFile fs (tempPath p rnd) data of
        Inl err \<Rightarrow> (Some WriteFileFailed, fs)
      | Inr fs1 \<Rightarrow>
          (case os_Rename fs1 (tempPath p rnd) p of
             Inl err \<Rightarrow>
               (case os_Remove fs1 (tempPath p rnd) of
                  Inl rmErr \<Rightarrow> (Some RenameFailed, fs1)
                | Inr fs2 \<Rightarrow> (Some RenameFailed, fs2))
           | Inr fs2 \<Rightarrow> (None, fs2)))"

definition writeFileAtomically_crash :: "FS \<Rightarrow> path \<Rightarrow> content \<Rightarrow> string \<Rightarrow> FS list" where
  "writeFileAtomically_crash fs p data rnd =
     os_WriteFile_crash fs (tempPath p rnd) data
       @ [snd (writeFileAtomically fs p data rnd)]"

section \<open>Notions used in the statements about the store\<close>

text \<open>A name that is one component of a path.\<close>

definition plainName :: "string \<Rightarrow> bool" where
  "plainName s = (CHR ''/'' \<notin> set s \<and> s \<noteq> [] \<and> s \<noteq> ''.'' \<and> s \<noteq> ''..'')"

text \<open>
  The file system \<^verbatim>\<open>saveEventLocally\<close> works on after its first statement, which creates
  the events directory when \<^verbatim>\<open>os.Stat\<close> reports that it does not exist.
\<close>

definition prepared :: "FS \<Rightarrow> path \<Rightarrow> FS" where
  "prepared fs dir =
     (if notExist fs dir
      then (case os_MkdirAll fs dir of Inl err \<Rightarrow> fs | Inr fs1 \<Rightarrow> fs1)
      else fs)"

text \<open>The record of an event with the four lifecycle fields of an existing record.\<close>

definition carried :: "CalendarEvent \<Rightarrow> LocalEvent \<Rightarrow> LocalEvent" where
  "carried event existing =
     \<lparr>Event = event, StartAnnounced = StartAnnounced existing,
      CheckStartAnnounced = CheckStartAnnounced existing,
      EndAnnounced = EndAnnounced existing,
      LastTimeReminded = LastTimeReminded existing\<rparr>"

text \<open>The record \<^verbatim>\<open>saveEventLocally\<close> marshals for an event.\<close>

definition savedRecord :: "path \<Rightarrow> FS \<Rightarrow> CalendarEvent \<Rightarrow> LocalEvent" where
  "savedRecord dir fs event =
     (case loadEvent dir (prepared fs dir) (ID event @ ''.json'') of
        Inr existing \<Rightarrow> carried event existing
      | Inl err \<Rightarrow>
          \<lparr>Event = event, StartAnnounced = False, CheckStartAnnounced = False,
           EndAnnounced = False, LastTimeReminded = 0\<rparr>)"

text \<open>Every entry of the directory has a name that is one component of a path.\<close>

definition properNames :: "FS \<Rightarrow> path \<Rightarrow> bool" where
  "properNames fs dir =
     list_all (\<lambda>q. q \<noteq> [] \<and> butlast q = dir \<longrightarrow> plainName (last q)) (map fst fs)"

text \<open>
  The identifiers of the records in the directory, as
  \<^verbatim>\<open>removeLocalEventsNotInCalendar\<close> reads them: the names of the regular files that end in
  \<^verbatim>\<open>.json\<close>, without that suffix.
\<close>

definition storedIDs :: "FS \<Rightarrow> path \<Rightarrow> string list" where
  "storedIDs fs dir =
     (case os_ReadDir fs dir of
        Inl err \<Rightarrow> []
      | Inr files \<Rightarrow>
          [strings_TrimSuffix (fst f) ''.json''.
             f \<leftarrow> files, \<not> snd f \<and> strings_HasSuffix (fst f) ''.json''])"

text \<open>The entries \<^verbatim>\<open>removeLocalEventsNotInCalendar\<close> removes for a list of events.\<close>

definition removable :: "CalendarEvent list \<Rightarrow> string \<times> bool \<Rightarrow> bool" where
  "removable events f \<longleftrightarrow>
     \<not> snd f \<and> strings_HasSuffix (fst f) ''.json''
     \<and> \<not> list_ex (\<lambda>event. ID event = strings_TrimSuffix (fst f) ''.json'') events"

section \<open>Sample data\<close>

text \<open>The instant of a wall-clock time of November 1, 2026 (UTC).\<close>

definition clock :: "int \<Rightarrow> int \<Rightarrow> Time" where
  "clock h m = 739920 * (24 * Hour) + h * Hour + m * Minute"

definition meeting :: LocalEvent where
  "meeting =
     \<lparr>Event = \<lparr>ID = ''A'', StartTime = clock 14 0, EndTime = clock 14 30,
               TimeZone = [], Description = ''standup''\<rparr>,
      StartAnnounced = False, CheckStartAnnounced = False, EndAnnounced = False,
      LastTimeReminded = 0\<rparr>"

definition rawConfig :: Config where
  "rawConfig = \<lparr>DebugLogEnabled = False, EventsPath = ''events'', NotificationRepeats = 0\<rparr>"

definition sysConfig :: Config where
  "sysConfig = \<lparr>DebugLogEnabled = False, EventsPath = ''events'', NotificationRepeats = 3\<rparr>"


definition reminded :: LocalEvent where
  "reminded = meeting\<lparr>StartAnnounced := True, CheckStartAnnounced := True,
                       LastTimeReminded := clock 14 0\<rparr>"

definition wholeDay :: LocalEvent where
  "wholeDay =
     \<lparr>Event = \<lparr>ID = ''W'', StartTime = clock 9 0, EndTime = 0,
               TimeZone = [], Description = ''chores''\<rparr>,
      StartAnnounced = False, CheckStartAnnounced = False, EndAnnounced = False,
      LastTimeReminded = 0\<rparr>"

definition wholeDayStore :: FS where
  "wholeDayStore = [([''events''], Dir), ([''events'', ''W.json''], File (Json wholeDay))]"

definition goodStore :: FS where
  "goodStore =
     [([''events''], Dir),
      ([''events'', ''A.json''], File (Json meeting)),
      ([''events'', ''W.json''], File (Json wholeDay))]"

definition corruptStore :: FS where
  "corruptStore = goodStore @ [([''events'', ''B.json''], File (Garbage ''{''))]"

definition announcedStore :: FS where
  "announcedStore = [([''events''], Dir), ([''events'', ''A.json''], File (Json reminded))]"

definition moved :: CalendarEvent where
  "moved = (Event meeting)\<lparr>Description := ''standup, room 2''\<rparr>"

definition named :: "string \<Rightarrow> LocalEvent" where
  "named ident = reminded\<lparr>Event := (Event reminded)\<lparr>ID := ident\<rparr>\<rparr>"

definition abcStore :: FS where
  "abcStore =
     [([''events''], Dir),
      ([''events'', ''A.json''], File (Json (named ''A''))),
      ([''events'', ''B.json''], File (Json (named ''B''))),
      ([''events'', ''C.json''], File (Json (named ''C'')))]"

definition acStore :: FS where
  "acStore =
     [([''events''], Dir),
      ([''events'', ''A.json''], File (Json (named ''A''))),
      ([''events'', ''C.json''], File (Json (named ''C'')))]"

definition emptyStore :: FS where
  "emptyStore = [([''events''], Dir)]"

definition traversal :: CalendarEvent where
  "traversal = (Event meeting)\<lparr>ID := ''x/../A''\<rparr>"

definition escaping :: CalendarEvent where
  "escaping = (Event meeting)\<lparr>ID := ''../escape''\<rparr>"

definition ended :: LocalEvent where
  "ended = reminded\<lparr>EndAnnounced := True\<rparr>"

definition truncatedStore :: FS where
  "truncatedStore = [([''events''], Dir), ([''events'', ''A.json''], File (Garbage []))]"

definition endedStore :: FS where
  "endedStore = [([''events''], Dir), ([''events'', ''A.json''], File (Json ended))]"

section \<open>Facts about times and the configuration\<close>

lemmas time_defs = IsZero_def After_def Before_def Equal_def Add_def Truncate_def
  Hour_def Minute_def Second_def

lemma scheduledForToday_iff:
  "scheduledForToday now e \<longleftrightarrow> StartTime (Event e) div (24 * Hour) = now div (24 * Hour)"
proof -
  have pos: "(0::int) < 24 * Hour"
    by (simp add: Hour_def Minute_def Second_def)
  have same: "(a - a mod d = b - b mod d) = (a div d = b div d)" if d: "0 < d" for a b d :: int
  proof -
    have "a - a mod d = d * (a div d)" and "b - b mod d = d * (b div d)"
      by (simp_all add: minus_mod_eq_mult_div)
    with d show ?thesis by simp
  qed
  from same [OF pos] pos show ?thesis
    by (simp add: scheduledForToday_def Equal_def Truncate_def)
qed

lemma quo_pos: "0 < b \<Longrightarrow> 0 \<le> a \<Longrightarrow> quo a b = Some (a div b)"
  by (simp add: quo_def sgn_if)

lemma loadConfig_repeats:
  "loadConfig decoded = Inr cfg \<Longrightarrow> 0 < NotificationRepeats cfg"
  by (auto simp: loadConfig_def DefaultNotificationRepeats_def split: option.splits if_splits)

lemma loadConfig_sample: "loadConfig (Some rawConfig) = Inr sysConfig"
  by (simp add: loadConfig_def rawConfig_def sysConfig_def DefaultNotificationRepeats_def)

lemma shouldRemindEvent_total:
  "NotificationRepeats cfg \<noteq> 0 \<Longrightarrow> \<exists>b. shouldRemindEvent cfg now e = Some b"
  by (auto simp: shouldRemindEvent_def quo_def)

lemma shouldRemindEvent_no_end:
  "EndTime (Event e) = 0 \<Longrightarrow> shouldRemindEvent cfg now e = Some False"
  by (simp add: shouldRemindEvent_def IsZero_def)

lemma shouldAnnounceEventEnd_no_end:
  "EndTime (Event e) = 0 \<Longrightarrow> \<not> shouldAnnounceEventEnd now e"
  by (simp add: shouldAnnounceEventEnd_def scheduledNearEnd_def IsZero_def)

section \<open>The conditions of the four announcements\<close>

text \<open>
  C3, as the code has it: the start of an event is announced exactly when the start has
  not been announced, the event is scheduled for today, its start time is not the zero
  time, and \<open>now\<close> lies strictly between start and end.  The interval is open at both
  ends.
\<close>

theorem shouldAnnounceEventStart_iff:
  "shouldAnnounceEventStart now e \<longleftrightarrow>
     \<not> StartAnnounced e \<and> scheduledForToday now e \<and> StartTime (Event e) \<noteq> 0
     \<and> StartTime (Event e) < now \<and> now < EndTime (Event e)"
  by (auto simp: shouldAnnounceEventStart_def scheduledForNow_def IsZero_def After_def
      Before_def)

theorem shouldAnnounceEventStart_iff_witness:
  "shouldAnnounceEventStart (clock 14 1) meeting
   \<and> \<not> shouldAnnounceEventStart (clock 14 30) meeting"
  using shouldAnnounceEventStart_iff [of "clock 14 1" meeting]
    shouldAnnounceEventStart_iff [of "clock 14 30" meeting]
  by (simp add: meeting_def clock_def scheduledForToday_def time_defs)

text \<open>
  C3 as the specification states it fails when \<open>now\<close> is the start time: the event is
  unannounced, scheduled for today and \<open>now\<close> is in \<open>[start, end)\<close>, yet the start is not
  announced.
\<close>

theorem shouldAnnounceEventStart_at_start_counterexample:
  "\<not> StartAnnounced meeting \<and> scheduledForToday (clock 14 0) meeting
   \<and> StartTime (Event meeting) \<le> clock 14 0 \<and> clock 14 0 < EndTime (Event meeting)
   \<and> \<not> shouldAnnounceEventStart (clock 14 0) meeting"
  by (simp add: meeting_def clock_def shouldAnnounceEventStart_def scheduledForNow_def
      scheduledForToday_def time_defs)

text \<open>
  C4, as the code has it: with the repeat count that \<^verbatim>\<open>loadConfig\<close> leaves in the
  configuration (the configured one, or 3 when that is not positive), the reminder
  condition never panics and holds exactly when the end has not been announced, the end
  time is not the zero time, \<open>start \<le> now \<le> end\<close> and \<open>now\<close> is strictly later than
  \<open>LastTimeReminded + (end - start) / repeats\<close> (the difference saturating at the largest
  duration).  There is no test for a zero \<open>LastTimeReminded\<close>: for it the last condition
  holds at every \<open>now\<close> later than the largest duration after the zero time.
\<close>

theorem shouldRemindEvent_iff:
  assumes "loadConfig (Some c) = Inr cfg"
  shows "shouldRemindEvent cfg now e =
           Some (\<not> EndAnnounced e \<and> EndTime (Event e) \<noteq> 0
                 \<and> StartTime (Event e) \<le> now \<and> now \<le> EndTime (Event e)
                 \<and> LastTimeReminded e
                     + min (EndTime (Event e) - StartTime (Event e)) maxDuration
                         div (if NotificationRepeats c \<le> 0 then 3 else NotificationRepeats c)
                     < now)
         \<and> (LastTimeReminded e = 0 \<and> maxDuration < now \<longrightarrow>
              shouldRemindEvent cfg now e =
                Some (\<not> EndAnnounced e \<and> EndTime (Event e) \<noteq> 0
                      \<and> StartTime (Event e) \<le> now \<and> now \<le> EndTime (Event e)))"
proof -
  let ?n = "if NotificationRepeats c \<le> 0 then 3 else NotificationRepeats c"
  let ?d = "min (EndTime (Event e) - StartTime (Event e)) maxDuration"
  from assms have n: "NotificationRepeats cfg = ?n"
    by (auto simp: loadConfig_def DefaultNotificationRepeats_def split: if_splits)
  have npos: "0 < ?n" by simp
  have first: "shouldRemindEvent cfg now e =
           Some (\<not> EndAnnounced e \<and> EndTime (Event e) \<noteq> 0
                 \<and> StartTime (Event e) \<le> now \<and> now \<le> EndTime (Event e)
                 \<and> LastTimeReminded e + ?d div ?n < now)"
  proof (cases "EndAnnounced e \<or> EndTime (Event e) = 0 \<or> now < StartTime (Event e)
                \<or> EndTime (Event e) < now")
    case True
    then show ?thesis
      by (auto simp: shouldRemindEvent_def IsZero_def After_def Before_def)
  next
    case False
    then have d: "0 \<le> EndTime (Event e) - StartTime (Event e)" by simp
    then have s: "Sub (EndTime (Event e)) (StartTime (Event e)) = ?d"
      by (auto simp: Sub_def maxDuration_def minDuration_def)
    have s0: "0 \<le> ?d"
      using d by (simp add: maxDuration_def)
    from False show ?thesis
      unfolding shouldRemindEvent_def s n quo_pos [OF npos s0]
      by (auto simp: IsZero_def After_def Before_def Add_def)
  qed
  have second: "?d div ?n < now" if "maxDuration < now" and "EndTime (Event e) - StartTime (Event e) \<ge> 0"
  proof -
    have "0 \<le> ?d" using that by (simp add: maxDuration_def)
    then have "?d div ?n \<le> ?d"
      by (cases "?d = 0") (simp_all only: div_0 order_refl int_div_le_self)
    also have "?d \<le> maxDuration" by simp
    finally show ?thesis using that by simp
  qed
  from first second show ?thesis by auto
qed

theorem shouldRemindEvent_iff_witness:
  "loadConfig (Some rawConfig) = Inr sysConfig
   \<and> shouldRemindEvent sysConfig (clock 14 11) reminded = Some True
   \<and> LastTimeReminded meeting = 0 \<and> maxDuration < clock 14 5
   \<and> shouldRemindEvent sysConfig (clock 14 5) meeting = Some True"
  using shouldRemindEvent_iff [OF loadConfig_sample, of "clock 14 11" reminded]
    shouldRemindEvent_iff [OF loadConfig_sample, of "clock 14 5" meeting] loadConfig_sample
  by (simp add: reminded_def meeting_def clock_def rawConfig_def maxDuration_def time_defs)

text \<open>
  C4 as the specification states it fails when \<open>now\<close> is exactly one interval after the
  last reminder: with three repeats of a thirty-minute event reminded at 14:00, the
  condition of the specification holds at 14:10 and the code does not remind.
\<close>

theorem shouldRemindEvent_at_interval_counterexample:
  "loadConfig (Some rawConfig) = Inr sysConfig \<and> NotificationRepeats sysConfig = 3
   \<and> \<not> EndAnnounced reminded
   \<and> StartTime (Event reminded) \<le> clock 14 10 \<and> clock 14 10 \<le> EndTime (Event reminded)
   \<and> clock 14 10 \<ge> LastTimeReminded reminded
        + (EndTime (Event reminded) - StartTime (Event reminded)) div 3
   \<and> shouldRemindEvent sysConfig (clock 14 10) reminded = Some False"
  by (simp add: loadConfig_sample reminded_def meeting_def clock_def sysConfig_def
      shouldRemindEvent_def Sub_def quo_def maxDuration_def minDuration_def time_defs)

text \<open>
  C5, as the code has it: the end of an event is announced exactly when the end has not
  been announced, the event is scheduled for today, its end time is not the zero time, and
  \<open>now\<close> lies strictly within one minute of the end.  The window is open at both ends.
\<close>

theorem shouldAnnounceEventEnd_iff:
  "shouldAnnounceEventEnd now e \<longleftrightarrow>
     \<not> EndAnnounced e \<and> scheduledForToday now e \<and> EndTime (Event e) \<noteq> 0
     \<and> EndTime (Event e) - Minute < now \<and> now < EndTime (Event e) + Minute"
  by (auto simp: shouldAnnounceEventEnd_def scheduledNearEnd_def IsZero_def After_def
      Before_def Add_def)

theorem shouldAnnounceEventEnd_iff_witness:
  "shouldAnnounceEventEnd (clock 14 30) meeting
   \<and> \<not> shouldAnnounceEventEnd (clock 14 32) meeting"
  using shouldAnnounceEventEnd_iff [of "clock 14 30" meeting]
    shouldAnnounceEventEnd_iff [of "clock 14 32" meeting]
  by (simp add: meeting_def clock_def scheduledForToday_def time_defs)

text \<open>
  C5 as the specification states it fails at both ends of the window: at exactly one
  minute before and one minute after the end, the end is not announced.
\<close>

theorem shouldAnnounceEventEnd_at_bounds_counterexample:
  "\<not> EndAnnounced meeting \<and> EndTime (Event meeting) \<noteq> 0
   \<and> scheduledForToday (clock 14 29) meeting \<and> scheduledForToday (clock 14 31) meeting
   \<and> clock 14 29 = EndTime (Event meeting) - Minute
   \<and> clock 14 31 = EndTime (Event meeting) + Minute
   \<and> \<not> shouldAnnounceEventEnd (clock 14 29) meeting
   \<and> \<not> shouldAnnounceEventEnd (clock 14 31) meeting"
  by (simp add: meeting_def clock_def shouldAnnounceEventEnd_def scheduledNearEnd_def
      scheduledForToday_def time_defs)

text \<open>
  C6, as the code has it: the start check is due exactly when the event is scheduled for
  today, its start has been announced, the check has not been made, and \<open>now\<close> is strictly
  later than one minute after the start.
\<close>

theorem shouldCheckEventStarted_iff:
  "shouldCheckEventStarted now e \<longleftrightarrow>
     scheduledForToday now e \<and> StartAnnounced e \<and> \<not> CheckStartAnnounced e
     \<and> StartTime (Event e) + Minute < now"
  by (auto simp: shouldCheckEventStarted_def After_def Add_def)

theorem shouldCheckEventStarted_iff_witness:
  "shouldCheckEventStarted (clock 14 2) (meeting\<lparr>StartAnnounced := True\<rparr>)
   \<and> \<not> shouldCheckEventStarted (clock 14 2) meeting"
  using shouldCheckEventStarted_iff [of "clock 14 2" "meeting\<lparr>StartAnnounced := True\<rparr>"]
    shouldCheckEventStarted_iff [of "clock 14 2" meeting]
  by (simp add: meeting_def clock_def scheduledForToday_def time_defs)

text \<open>
  C6 as the specification states it fails when \<open>now\<close> is exactly one minute after the
  start: the start has been announced, the check has not been made, and no check is due.
\<close>

theorem shouldCheckEventStarted_at_minute_counterexample:
  "scheduledForToday (clock 14 1) (meeting\<lparr>StartAnnounced := True\<rparr>)
   \<and> StartAnnounced (meeting\<lparr>StartAnnounced := True\<rparr>)
   \<and> \<not> CheckStartAnnounced (meeting\<lparr>StartAnnounced := True\<rparr>)
   \<and> clock 14 1 = StartTime (Event (meeting\<lparr>StartAnnounced := True\<rparr>)) + Minute
   \<and> \<not> shouldCheckEventStarted (clock 14 1) (meeting\<lparr>StartAnnounced := True\<rparr>)"
  by (simp add: meeting_def clock_def shouldCheckEventStarted_def scheduledForToday_def
      time_defs)

section \<open>One pass of the reminder loop over an event\<close>

text \<open>
  C1: with a configuration left by \<^verbatim>\<open>loadConfig\<close>, one pass of the loop body over an
  event returns, and makes at most one announcement: the first in the order
  AnnounceStart, CheckStarted, Remind, AnnounceEnd whose condition holds, and none when
  no condition holds.  With any configuration, a pass that returns has made at most one
  announcement.
\<close>

theorem remindEvent_at_most_one:
  assumes "loadConfig decoded = Inr cfg"
  shows "(\<exists>fs' ns. remindEvent eventPath cfg now fs e = Some (fs', ns) \<and> length ns \<le> 1
            \<and> ns = (if shouldAnnounceEventStart now e then [AnnounceStart]
                    else if shouldCheckEventStarted now e then [CheckStarted]
                    else if shouldRemindEvent cfg now e = Some True then [Remind]
                    else if shouldAnnounceEventEnd now e then [AnnounceEnd]
                    else []))
       \<and> (\<forall>cfg' fs' ns. remindEvent eventPath cfg' now fs e = Some (fs', ns)
              \<longrightarrow> length ns \<le> 1)"
proof -
  from loadConfig_repeats [OF assms] obtain b where b: "shouldRemindEvent cfg now e = Some b"
    using shouldRemindEvent_total [of cfg now e] by auto
  have first: "\<exists>fs' ns. remindEvent eventPath cfg now fs e = Some (fs', ns) \<and> length ns \<le> 1
            \<and> ns = (if shouldAnnounceEventStart now e then [AnnounceStart]
                    else if shouldCheckEventStarted now e then [CheckStarted]
                    else if shouldRemindEvent cfg now e = Some True then [Remind]
                    else if shouldAnnounceEventEnd now e then [AnnounceEnd]
                    else [])"
    by (cases b) (simp_all add: remindEvent_def b Let_def split_beta)
  have any: "length ns \<le> 1" if "remindEvent eventPath cfg' now fs e = Some (fs', ns)"
    for cfg' fs' ns
    using that
    by (auto simp: remindEvent_def Let_def split_beta split: if_splits option.splits bool.splits)
  from first any show ?thesis by blast
qed

theorem remindEvent_at_most_one_witness:
  "loadConfig (Some rawConfig) = Inr sysConfig
   \<and> (\<exists>fs'. remindEvent [''events''] sysConfig (clock 14 5) [] meeting
              = Some (fs', [AnnounceStart]))
   \<and> shouldRemindEvent sysConfig (clock 14 5) meeting = Some True"
proof -
  have s: "shouldAnnounceEventStart (clock 14 5) meeting"
    by (simp add: shouldAnnounceEventStart_def scheduledForToday_def scheduledForNow_def
        meeting_def clock_def time_defs)
  have r: "shouldRemindEvent sysConfig (clock 14 5) meeting = Some True"
    by (simp add: meeting_def clock_def sysConfig_def shouldRemindEvent_def Sub_def quo_def
        maxDuration_def minDuration_def time_defs)
  from remindEvent_at_most_one [OF loadConfig_sample, of "[''events'']" "clock 14 5" "[]" meeting]
    s r loadConfig_sample
  show ?thesis by auto
qed

text \<open>
  C9, without the promise of a start announcement: for an event whose end time is the
  zero time, with any configuration and at any time, one pass of the loop body returns
  and announces neither a reminder nor the end; it announces nothing, the start, or the
  start check.
\<close>

theorem remindEvent_no_end:
  assumes "EndTime (Event e) = 0"
  shows "\<exists>fs' ns. remindEvent eventPath cfg now fs e = Some (fs', ns)
     \<and> Remind \<notin> set ns \<and> AnnounceEnd \<notin> set ns
     \<and> (ns = [] \<or> ns = [AnnounceStart] \<or> ns = [CheckStarted])"
  using assms
  by (simp add: remindEvent_def shouldRemindEvent_no_end shouldAnnounceEventEnd_no_end
      Let_def split_beta)

theorem remindEvent_no_end_witness:
  "EndTime (Event (wholeDay\<lparr>StartAnnounced := True\<rparr>)) = 0
   \<and> (\<exists>fs'. remindEvent [''events''] rawConfig (clock 9 5) wholeDayStore
               (wholeDay\<lparr>StartAnnounced := True\<rparr>) = Some (fs', [CheckStarted]))"
proof -
  have z: "EndTime (Event (wholeDay\<lparr>StartAnnounced := True\<rparr>)) = 0"
    by (simp add: wholeDay_def)
  have s: "\<not> shouldAnnounceEventStart (clock 9 5) (wholeDay\<lparr>StartAnnounced := True\<rparr>)"
    by (simp add: shouldAnnounceEventStart_def)
  have c: "shouldCheckEventStarted (clock 9 5) (wholeDay\<lparr>StartAnnounced := True\<rparr>)"
    by (simp add: shouldCheckEventStarted_def scheduledForToday_def wholeDay_def clock_def
        time_defs)
  from remindEvent_no_end [OF z, of "[''events'']" rawConfig "clock 9 5" wholeDayStore] z s c
  show ?thesis by (auto simp: remindEvent_def Let_def split_beta)
qed

text \<open>
  C9 as the specification states it promises that an event without end time can still
  have its start announced.  It cannot at any time from the zero time on: the start
  condition needs \<open>now\<close> before the end time.  One minute after the start of such an
  event, unannounced and scheduled for today, the loop body announces nothing, and
  \<^verbatim>\<open>loadTodayEvents\<close> does not even return the event.
\<close>

theorem remindEvent_no_end_counterexample:
  "EndTime (Event wholeDay) = 0 \<and> \<not> StartAnnounced wholeDay
   \<and> scheduledForToday (clock 9 1) wholeDay \<and> StartTime (Event wholeDay) < clock 9 1
   \<and> remindEvent [''events''] sysConfig (clock 9 1) wholeDayStore wholeDay
       = Some (wholeDayStore, [])
   \<and> loadTodayEvents [''events''] (clock 9 1) wholeDayStore = Inr []
   \<and> \<not> (\<exists>now\<ge>0. shouldAnnounceEventStart now wholeDay)"
proof -
  have today: "scheduledForToday (clock 9 1) wholeDay"
    by (simp add: scheduledForToday_def wholeDay_def clock_def time_defs)
  have never: "\<not> shouldAnnounceEventStart now wholeDay" if "0 \<le> now" for now
    using that
    by (simp add: shouldAnnounceEventStart_def scheduledForNow_def wholeDay_def Before_def)
  have nocheck: "\<not> shouldCheckEventStarted (clock 9 1) wholeDay"
    by (simp add: shouldCheckEventStarted_def wholeDay_def)
  have pos: "0 \<le> clock 9 1"
    by (simp add: clock_def time_defs)
  have body: "remindEvent [''events''] sysConfig (clock 9 1) wholeDayStore wholeDay
       = Some (wholeDayStore, [])"
    using never [OF pos] nocheck
    by (simp add: remindEvent_def shouldRemindEvent_no_end shouldAnnounceEventEnd_no_end
        wholeDay_def)
  have load: "loadTodayEvents [''events''] (clock 9 1) wholeDayStore = Inr []"
    by (simp add: loadTodayEvents_def os_ReadDir_def stat_def wholeDayStore_def loadEvent_def
        path_Join_def cleanStep_def os_ReadFile_def json_Unmarshal_def today After_def
        wholeDay_def clock_def Hour_def Minute_def Second_def)
  from today never body load show ?thesis
    by (auto simp: wholeDay_def clock_def time_defs)
qed

section \<open>Facts about paths, files and the store\<close>


lemma splitSlash_plain: "CHR ''/'' \<notin> set s \<Longrightarrow> splitSlash s = [s]"
  by (induction s) auto

lemma path_Join_plain:
  "CHR ''/'' \<notin> set s \<Longrightarrow> s \<noteq> [] \<Longrightarrow> s \<noteq> ''.'' \<Longrightarrow> s \<noteq> ''..'' \<Longrightarrow> path_Join dir s = dir @ [s]"
  by (simp add: path_Join_def splitSlash_plain cleanStep_def)

lemma json_name_plain:
  "CHR ''/'' \<notin> set ident \<Longrightarrow> path_Join dir (ident @ ''.json'') = dir @ [ident @ ''.json'']"
  by (rule path_Join_plain) (auto simp: append_eq_Cons_conv)

lemma HasSuffix_append: "strings_HasSuffix (ident @ suf) suf"
  by (simp add: strings_HasSuffix_def)

lemma TrimSuffix_append: "strings_TrimSuffix (ident @ suf) suf = ident"
  by (simp add: strings_TrimSuffix_def strings_HasSuffix_def)

lemma HasSuffix_decompose:
  "strings_HasSuffix s suf \<Longrightarrow> s = strings_TrimSuffix s suf @ suf"
  by (auto simp: strings_TrimSuffix_def strings_HasSuffix_def) (metis append_take_drop_id)

lemma butlast_neq: "p \<noteq> [] \<Longrightarrow> butlast p \<noteq> p"
  by (cases p rule: rev_cases) simp_all

lemma stat_root [simp]: "stat fs [] = Some Dir"
  by (simp add: stat_def)

lemma stat_update:
  "stat (AList.update p n fs) q = (if q = [] then Some Dir else if q = p then Some n else stat fs q)"
  by (simp add: stat_def update_conv')

lemma stat_delete:
  "stat (AList.delete p fs) q = (if q = [] then Some Dir else if q = p then None else stat fs q)"
  by (simp add: stat_def delete_conv')

lemma stat_mkdirs_keep:
  "stat fs q = Some n \<Longrightarrow> stat (mkdirs fs ps) q = Some n"
proof (induction ps arbitrary: fs)
  case Nil
  then show ?case by (simp add: mkdirs_def)
next
  case (Cons a ps)
  let ?fs = "if stat fs a = None then AList.update a Dir fs else fs"
  have "stat ?fs q = Some n"
    using Cons.prems by (auto simp: stat_update)
  then have "stat (mkdirs ?fs ps) q = Some n" by (rule Cons.IH)
  then show ?case by (simp add: mkdirs_def)
qed

lemma stat_mkdirs_other:
  "q \<notin> set ps \<Longrightarrow> stat (mkdirs fs ps) q = stat fs q"
proof (induction ps arbitrary: fs)
  case Nil
  then show ?case by (simp add: mkdirs_def)
next
  case (Cons a ps)
  let ?fs = "if stat fs a = None then AList.update a Dir fs else fs"
  from Cons.prems have "q \<notin> set ps" and "q \<noteq> a" by auto
  then have "stat (mkdirs ?fs ps) q = stat ?fs q" by (simp add: Cons.IH)
  also have "stat ?fs q = stat fs q"
    using \<open>q \<noteq> a\<close> by (simp add: stat_update)
  finally show ?case by (simp add: mkdirs_def)
qed

lemma length_prefixes_of: "q \<in> set (prefixes_of p) \<Longrightarrow> length q \<le> length p"
  by (induction p arbitrary: q) auto

lemma prepared_cases: "prepared fs dir = fs \<or> prepared fs dir = mkdirs fs (prefixes_of dir)"
  by (auto simp: prepared_def os_MkdirAll_def split: sum.splits if_splits)

lemma stat_prepared_keep: "stat fs q = Some n \<Longrightarrow> stat (prepared fs dir) q = Some n"
  using prepared_cases [of fs dir] by (auto simp: stat_mkdirs_keep)

lemma stat_prepared_child: "stat (prepared fs dir) (dir @ [name]) = stat fs (dir @ [name])"
proof -
  have "dir @ [name] \<notin> set (prefixes_of dir)"
    using length_prefixes_of [of "dir @ [name]" dir] by auto
  then show ?thesis
    using prepared_cases [of fs dir] by (auto simp: stat_mkdirs_other)
qed

lemma loadEvent_iff:
  "loadEvent dir fs name = Inr e \<longleftrightarrow> stat fs (path_Join dir name) = Some (File (Json e))"
  by (auto simp: loadEvent_def os_ReadFile_def json_Unmarshal_def
      split: option.splits node.splits content.splits sum.splits)

lemma Event_savedRecord [simp]: "Event (savedRecord dir fs event) = event"
  by (simp add: savedRecord_def carried_def split: sum.splits)

lemma saveEventLocally_alt:
  "saveEventLocally dir fs event =
     (case json_MarshalIndent (savedRecord dir fs event) of
        Inl err \<Rightarrow> (Some MarshalFailed, prepared fs dir)
      | Inr eJson \<Rightarrow>
          (case os_WriteFile (prepared fs dir) (path_Join dir (ID event @ ''.json'')) eJson of
             Inl err \<Rightarrow> (Some err, prepared fs dir)
           | Inr fs' \<Rightarrow> (None, fs')))"
  unfolding saveEventLocally_def prepared_def [symmetric] savedRecord_def Let_def
  by (cases "loadEvent dir (prepared fs dir) (ID event @ ''.json'')")
    (simp_all add: carried_def cong: sum.case_cong)

lemma saveEventLocally_ok:
  assumes "saveEventLocally dir fs event = (None, fs')"
  shows "fs' = AList.update (path_Join dir (ID event @ ''.json''))
                 (File (Json (savedRecord dir fs event))) (prepared fs dir)"
    and "stat (prepared fs dir) (butlast (path_Join dir (ID event @ ''.json''))) = Some Dir"
    and "path_Join dir (ID event @ ''.json'') \<noteq> []"
    and "json_MarshalIndent (savedRecord dir fs event) = Inr (Json (savedRecord dir fs event))"
proof -
  let ?p = "path_Join dir (ID event @ ''.json'')"
  from assms show m: "json_MarshalIndent (savedRecord dir fs event) = Inr (Json (savedRecord dir fs event))"
    by (auto simp: saveEventLocally_alt json_MarshalIndent_def split: if_splits)
  from assms m have w: "os_WriteFile (prepared fs dir) ?p (Json (savedRecord dir fs event)) = Inr fs'"
    by (auto simp: saveEventLocally_alt split: sum.splits)
  then show "fs' = AList.update ?p (File (Json (savedRecord dir fs event))) (prepared fs dir)"
    and "stat (prepared fs dir) (butlast ?p) = Some Dir" and "?p \<noteq> []"
    by (auto simp: os_WriteFile_def split: if_splits)
qed

lemma savedRecord_existing:
  assumes "loadEvent dir fs (ID event @ ''.json'') = Inr existing"
  shows "savedRecord dir fs event = carried event existing"
proof -
  from assms have "stat fs (path_Join dir (ID event @ ''.json'')) = Some (File (Json existing))"
    by (simp add: loadEvent_iff)
  then have "stat (prepared fs dir) (path_Join dir (ID event @ ''.json'')) = Some (File (Json existing))"
    by (rule stat_prepared_keep)
  then have "loadEvent dir (prepared fs dir) (ID event @ ''.json'') = Inr existing"
    by (simp add: loadEvent_iff)
  then show ?thesis by (simp add: savedRecord_def)
qed

lemma loadTodayEvents_loop_ok:
  "map (\<lambda>f. loadEvent dir fs (fst f)) files = map Inr es \<Longrightarrow>
   loadTodayEvents_loop dir now fs files acc =
     Inr (acc @ filter (\<lambda>e. scheduledForToday now e \<and> \<not> After now (EndTime (Event e))) es)"
proof (induction files arbitrary: acc es)
  case Nil
  then show ?case by simp
next
  case (Cons f files)
  then obtain e es' where es: "es = e # es'" and e: "loadEvent dir fs (fst f) = Inr e"
    and rest: "map (\<lambda>f. loadEvent dir fs (fst f)) files = map Inr es'"
    by (cases es) auto
  show ?case
    using Cons.IH [OF rest] by (simp add: es e In_def Let_def)
qed

lemma loadTodayEvents_loop_fail:
  "\<not> (\<exists>es. map (\<lambda>f. loadEvent dir fs (fst f)) files = map Inr es) \<Longrightarrow>
   \<exists>name err. loadTodayEvents_loop dir now fs files acc = Inl (LoadEventFailed name err)
      \<and> name \<in> fst ` set files \<and> loadEvent dir fs name = Inl err"
proof (induction files arbitrary: acc)
  case Nil
  then show ?case by simp
next
  case (Cons f files)
  show ?case
  proof (cases "loadEvent dir fs (fst f)")
    case (Inl err)
    then show ?thesis by auto
  next
    case (Inr e)
    have "\<not> (\<exists>es. map (\<lambda>f. loadEvent dir fs (fst f)) files = map Inr es)"
    proof
      assume "\<exists>es. map (\<lambda>f. loadEvent dir fs (fst f)) files = map Inr es"
      then obtain es where "map (\<lambda>f. loadEvent dir fs (fst f)) files = map Inr es" ..
      with Inr have "map (\<lambda>f. loadEvent dir fs (fst f)) (f # files) = map Inr (e # es)" by simp
      with Cons.prems show False by blast
    qed
    then have IH: "\<exists>name err. loadTodayEvents_loop dir now fs files acc' = Inl (LoadEventFailed name err)
      \<and> name \<in> fst ` set files \<and> loadEvent dir fs name = Inl err" for acc'
      by (rule Cons.IH)
    have "loadTodayEvents_loop dir now fs (f # files) acc = loadTodayEvents_loop dir now fs files acc
        \<or> loadTodayEvents_loop dir now fs (f # files) acc = loadTodayEvents_loop dir now fs files (acc @ [e])"
      by (simp add: Inr Let_def In_def)
    then show ?thesis
    proof
      assume eq: "loadTodayEvents_loop dir now fs (f # files) acc = loadTodayEvents_loop dir now fs files acc"
      show ?thesis
        unfolding eq using IH [of acc] by (auto simp del: loadTodayEvents_loop.simps)
    next
      assume eq: "loadTodayEvents_loop dir now fs (f # files) acc
                    = loadTodayEvents_loop dir now fs files (acc @ [e])"
      show ?thesis
        unfolding eq using IH [of "acc @ [e]"] by (auto simp del: loadTodayEvents_loop.simps)
    qed
  qed
qed

section \<open>Loading today's events\<close>

text \<open>
  C2, as the code has it: when the events directory can be listed, \<^verbatim>\<open>loadTodayEvents\<close>
  is all or nothing.  If every entry can be read and parsed, it returns exactly the
  records scheduled for today whose end time has not passed, in the order of the listing.
  If some entry cannot be read or parsed, it fails with an error that names such an entry
  and returns no record at all.
\<close>

theorem loadTodayEvents_all_or_nothing:
  assumes "os_ReadDir fs eventDir = Inr files"
  shows "(map (\<lambda>f. loadEvent eventDir fs (fst f)) files = map Inr es \<longrightarrow>
            loadTodayEvents eventDir now fs =
              Inr (filter (\<lambda>e. scheduledForToday now e \<and> \<not> After now (EndTime (Event e))) es))
       \<and> (\<not> (\<exists>es. map (\<lambda>f. loadEvent eventDir fs (fst f)) files = map Inr es) \<longrightarrow>
            (\<exists>name err. loadTodayEvents eventDir now fs = Inl (LoadEventFailed name err)
                \<and> name \<in> fst ` set files \<and> loadEvent eventDir fs name = Inl err))"
  using loadTodayEvents_loop_ok [of eventDir fs files es now "[]"]
    loadTodayEvents_loop_fail [of eventDir fs files now "[]"]
  by (simp add: loadTodayEvents_def assms)

lemma ReadDir_goodStore:
  "os_ReadDir goodStore [''events''] = Inr [(''A.json'', False), (''W.json'', False)]"
  by (simp add: os_ReadDir_def goodStore_def stat_def)

lemma ReadDir_corruptStore:
  "os_ReadDir corruptStore [''events'']
     = Inr [(''A.json'', False), (''W.json'', False), (''B.json'', False)]"
  by (simp add: os_ReadDir_def corruptStore_def goodStore_def stat_def)

lemma loadEvent_goodStore:
  "loadEvent [''events''] goodStore ''A.json'' = Inr meeting"
  "loadEvent [''events''] goodStore ''W.json'' = Inr wholeDay"
  by (simp_all add: loadEvent_iff path_Join_def cleanStep_def goodStore_def stat_def)

lemma loadEvent_corruptStore:
  "loadEvent [''events''] corruptStore ''A.json'' = Inr meeting"
  "loadEvent [''events''] corruptStore ''W.json'' = Inr wholeDay"
  "loadEvent [''events''] corruptStore ''B.json'' = Inl (UnmarshalFailed ''B.json'')"
  by (simp_all add: loadEvent_def os_ReadFile_def json_Unmarshal_def path_Join_def
      cleanStep_def corruptStore_def goodStore_def stat_def)

theorem loadTodayEvents_all_or_nothing_witness:
  "os_ReadDir goodStore [''events''] = Inr [(''A.json'', False), (''W.json'', False)]
   \<and> map (\<lambda>f. loadEvent [''events''] goodStore (fst f)) [(''A.json'', False), (''W.json'', False)]
       = map Inr [meeting, wholeDay]
   \<and> loadTodayEvents [''events''] (clock 14 5) goodStore = Inr [meeting]"
proof -
  have m: "map (\<lambda>f. loadEvent [''events''] goodStore (fst f))
             [(''A.json'', False), (''W.json'', False)] = map Inr [meeting, wholeDay]"
    by (simp add: loadEvent_goodStore)
  have f: "filter (\<lambda>e. scheduledForToday (clock 14 5) e
                       \<and> \<not> After (clock 14 5) (EndTime (Event e))) [meeting, wholeDay]
             = [meeting]"
    by (simp add: scheduledForToday_def meeting_def wholeDay_def clock_def time_defs)
  from loadTodayEvents_all_or_nothing [OF ReadDir_goodStore, of "[meeting, wholeDay]" "clock 14 5"]
    m f ReadDir_goodStore
  show ?thesis by simp
qed

text \<open>
  C2 as the specification states it fails: with the valid record of a meeting that is
  scheduled for today and not over, and one record that cannot be parsed, the load fails
  as a whole, and the reminder loop that follows announces nothing.
\<close>

theorem loadTodayEvents_corrupt_counterexample:
  "loadEvent [''events''] corruptStore ''A.json'' = Inr meeting
   \<and> scheduledForToday (clock 14 5) meeting
   \<and> \<not> After (clock 14 5) (EndTime (Event meeting))
   \<and> loadEvent [''events''] corruptStore ''B.json'' = Inl (UnmarshalFailed ''B.json'')
   \<and> loadTodayEvents [''events''] (clock 14 5) corruptStore
        = Inl (LoadEventFailed ''B.json'' (UnmarshalFailed ''B.json''))
   \<and> remindCurrentEvents [''events''] sysConfig (clock 14 5) corruptStore
        = Some (corruptStore, [])"
proof -
  have today: "scheduledForToday (clock 14 5) meeting"
    "\<not> After (clock 14 5) (EndTime (Event meeting))"
    "scheduledForToday (clock 14 5) wholeDay" "After (clock 14 5) (EndTime (Event wholeDay))"
    by (simp_all add: scheduledForToday_def meeting_def wholeDay_def clock_def time_defs)
  have load: "loadTodayEvents [''events''] (clock 14 5) corruptStore
        = Inl (LoadEventFailed ''B.json'' (UnmarshalFailed ''B.json''))"
    by (simp add: loadTodayEvents_def ReadDir_corruptStore loadEvent_corruptStore today)
      (simp add: meeting_def)
  from today load show ?thesis
    by (simp add: loadEvent_corruptStore remindCurrentEvents_def)
qed

section \<open>Saving an event that has a record\<close>

text \<open>
  C7: when the store has a record under the identifier of an event and saving the event
  succeeds, the record then stored is the event with the four lifecycle fields of the
  existing record; saving the same event once more succeeds and leaves that record.
\<close>

theorem saveEventLocally_carry_forward:
  assumes "loadEvent eventPath fs (ID event @ ''.json'') = Inr existing"
    and "saveEventLocally eventPath fs event = (None, fs')"
  shows "loadEvent eventPath fs' (ID event @ ''.json'') = Inr (carried event existing)
     \<and> (\<exists>fs''. saveEventLocally eventPath fs' event = (None, fs'')
           \<and> loadEvent eventPath fs'' (ID event @ ''.json'') = Inr (carried event existing))"
proof -
  let ?p = "path_Join eventPath (ID event @ ''.json'')"
  let ?c = "carried event existing"
  note first = saveEventLocally_ok [OF assms(2), unfolded savedRecord_existing [OF assms(1)]]
  have l1: "loadEvent eventPath fs' (ID event @ ''.json'') = Inr ?c"
    by (simp add: loadEvent_iff first(1) stat_update first(3))
  have cc: "carried event ?c = ?c"
    by (simp add: carried_def)
  have r2: "savedRecord eventPath fs' event = ?c"
    using savedRecord_existing [OF l1] cc by simp
  have p2: "stat (prepared fs' eventPath) ?p = Some (File (Json ?c))"
    using l1 by (simp add: loadEvent_iff stat_prepared_keep)
  have "stat fs' (butlast ?p) = Some Dir"
    using first(2,3) by (simp add: first(1) stat_update butlast_neq)
  then have d2: "stat (prepared fs' eventPath) (butlast ?p) = Some Dir"
    by (rule stat_prepared_keep)
  have w2: "os_WriteFile (prepared fs' eventPath) ?p (Json ?c)
              = Inr (AList.update ?p (File (Json ?c)) (prepared fs' eventPath))"
    using d2 p2 first(3) by (simp add: os_WriteFile_def)
  have s2: "saveEventLocally eventPath fs' event
              = (None, AList.update ?p (File (Json ?c)) (prepared fs' eventPath))"
    by (simp add: saveEventLocally_alt r2 first(4) w2)
  have "loadEvent eventPath (AList.update ?p (File (Json ?c)) (prepared fs' eventPath))
          (ID event @ ''.json'') = Inr ?c"
    by (simp add: loadEvent_iff stat_update first(3))
  with l1 s2 show ?thesis by blast
qed

theorem saveEventLocally_carry_forward_witness:
  "loadEvent [''events''] announcedStore (ID moved @ ''.json'') = Inr reminded
   \<and> saveEventLocally [''events''] announcedStore moved
       = (None, [([''events''], Dir), ([''events'', ''A.json''], File (Json (carried moved reminded)))])
   \<and> loadEvent [''events'']
        [([''events''], Dir), ([''events'', ''A.json''], File (Json (carried moved reminded)))]
        (ID moved @ ''.json'') = Inr (carried moved reminded)
   \<and> StartAnnounced (carried moved reminded) \<and> CheckStartAnnounced (carried moved reminded)
   \<and> LastTimeReminded (carried moved reminded) = clock 14 0"
proof -
  have p: "path_Join [''events''] (ID moved @ ''.json'') = [''events'', ''A.json'']"
    by (simp add: moved_def meeting_def path_Join_def cleanStep_def)
  have h1: "loadEvent [''events''] announcedStore (ID moved @ ''.json'') = Inr reminded"
    by (simp add: loadEvent_iff p announcedStore_def stat_def)
  have prep: "prepared announcedStore [''events''] = announcedStore"
    by (simp add: prepared_def notExist_def announcedStore_def stat_def)
  have ok: "json_MarshalIndent (carried moved reminded) = Inr (Json (carried moved reminded))"
    by (simp add: json_MarshalIndent_def jsonTime_def carried_def moved_def reminded_def
        meeting_def clock_def Hour_def Minute_def Second_def)
  have h2: "saveEventLocally [''events''] announcedStore moved
       = (None, [([''events''], Dir), ([''events'', ''A.json''], File (Json (carried moved reminded)))])"
    by (simp add: saveEventLocally_alt savedRecord_existing [OF h1] ok prep p os_WriteFile_def)
      (simp add: announcedStore_def stat_def)
  from saveEventLocally_carry_forward [OF h1 h2] h1 h2
  show ?thesis by (simp add: carried_def reminded_def)
qed

section \<open>Reconciling the store with the remote events\<close>


lemma child_path: "q \<noteq> [] \<and> butlast q = dir \<longleftrightarrow> q = dir @ [last q]"
  by (cases q rule: rev_cases) auto

lemma stat_child: "stat fs (dir @ [n]) = map_of fs (dir @ [n])"
  by (simp add: stat_def)

lemma stat_child_None: "stat fs (dir @ [n]) \<noteq> None \<longleftrightarrow> dir @ [n] \<in> fst ` set fs"
  unfolding stat_child map_of_eq_None_iff by simp

lemma properNames_iff:
  "properNames fs dir \<longleftrightarrow> (\<forall>n. stat fs (dir @ [n]) \<noteq> None \<longrightarrow> plainName n)"
proof
  assume p: "properNames fs dir"
  show "\<forall>n. stat fs (dir @ [n]) \<noteq> None \<longrightarrow> plainName n"
  proof (intro allI impI)
    fix n assume "stat fs (dir @ [n]) \<noteq> None"
    then have mem: "dir @ [n] \<in> fst ` set fs" unfolding stat_child_None .
    have "plainName (last q)" if "q \<in> fst ` set fs" and "q \<noteq> [] \<and> butlast q = dir" for q
      using p that unfolding properNames_def list_all_iff by auto
    from this [OF mem] show "plainName n" by simp
  qed
next
  assume a: "\<forall>n. stat fs (dir @ [n]) \<noteq> None \<longrightarrow> plainName n"
  show "properNames fs dir"
    unfolding properNames_def list_all_iff
  proof (intro ballI impI)
    fix q assume q: "q \<in> set (map fst fs)" and c: "q \<noteq> [] \<and> butlast q = dir"
    from c have e: "q = dir @ [last q]" by (simp add: child_path)
    with q have "stat fs (dir @ [last q]) \<noteq> None"
      unfolding stat_child_None by simp
    with a show "plainName (last q)" by blast
  qed
qed

lemma set_ReadDir:
  assumes "os_ReadDir fs dir = Inr files"
  shows "set files = {(n, stat fs (dir @ [n]) = Some Dir) | n. stat fs (dir @ [n]) \<noteq> None}"
    and "stat fs dir = Some Dir"
proof -
  from assms show d: "stat fs dir = Some Dir"
    by (auto simp: os_ReadDir_def split: if_splits)
  with assms have f: "files = [(last q, stat fs q = Some Dir). q \<leftarrow> remdups (map fst fs), q \<noteq> [], butlast q = dir]"
    by (auto simp: os_ReadDir_def)
  show "set files = {(n, stat fs (dir @ [n]) = Some Dir) | n. stat fs (dir @ [n]) \<noteq> None}"
  proof (intro set_eqI iffI)
    fix x assume "x \<in> set files"
    then obtain q where q: "q \<in> fst ` set fs" "q \<noteq> [] \<and> butlast q = dir"
      and x: "x = (last q, stat fs q = Some Dir)"
      unfolding f by auto
    from q(2) have e: "q = dir @ [last q]" by (simp add: child_path)
    with q(1) have "stat fs (dir @ [last q]) \<noteq> None" unfolding stat_child_None by simp
    with x e show "x \<in> {(n, stat fs (dir @ [n]) = Some Dir) | n. stat fs (dir @ [n]) \<noteq> None}"
      by (metis (mono_tags, lifting) mem_Collect_eq)
  next
    fix x assume "x \<in> {(n, stat fs (dir @ [n]) = Some Dir) | n. stat fs (dir @ [n]) \<noteq> None}"
    then obtain n where x: "x = (n, stat fs (dir @ [n]) = Some Dir)" and n: "stat fs (dir @ [n]) \<noteq> None"
      by auto
    from n have "dir @ [n] \<in> fst ` set fs" unfolding stat_child_None .
    then show "x \<in> set files"
      unfolding f x by (auto intro!: bexI [where x = "dir @ [n]"])
  qed
qed

lemma in_ReadDir:
  assumes "os_ReadDir fs dir = Inr files"
  shows "(n, b) \<in> set files \<longleftrightarrow>
           stat fs (dir @ [n]) \<noteq> None \<and> b = (stat fs (dir @ [n]) = Some Dir)"
  unfolding set_ReadDir(1) [OF assms] by auto

lemma plainName_json: "CHR ''/'' \<notin> set ident \<Longrightarrow> plainName (ident @ ''.json'')"
  by (auto simp: plainName_def append_eq_Cons_conv)

lemma path_Join_plainName: "plainName n \<Longrightarrow> path_Join dir n = dir @ [n]"
  by (simp add: plainName_def path_Join_plain)

lemma saveEventLocally_child:
  assumes "saveEventLocally dir fs ev = (None, fs')" and "CHR ''/'' \<notin> set (ID ev)"
  shows "stat fs' (dir @ [n]) =
           (if n = ID ev @ ''.json'' then Some (File (Json (savedRecord dir fs ev)))
            else stat fs (dir @ [n]))"
  using saveEventLocally_ok(1) [OF assms(1)]
  by (simp add: json_name_plain [OF assms(2)] stat_update stat_prepared_child)

lemma syncLocalEvents_loop_ok:
  assumes "syncLocalEvents_loop dir fs events = (None, fs1)"
    and "\<forall>ev\<in>set events. CHR ''/'' \<notin> set (ID ev)"
  shows "(\<forall>ev\<in>set events. \<exists>e. stat fs1 (dir @ [ID ev @ ''.json'']) = Some (File (Json e))
                                 \<and> ID (Event e) = ID ev)
       \<and> (\<forall>n. n \<notin> (\<lambda>ev. ID ev @ ''.json'') ` set events \<longrightarrow>
                stat fs1 (dir @ [n]) = stat fs (dir @ [n]))"
  using assms
proof (induction events arbitrary: fs)
  case Nil
  then show ?case by simp
next
  case (Cons ev events)
  from Cons.prems(1) obtain fs' where s: "saveEventLocally dir fs ev = (None, fs')"
    and r: "syncLocalEvents_loop dir fs' events = (None, fs1)"
    by (auto split: prod.splits option.splits)
  from Cons.prems(2) have pl: "CHR ''/'' \<notin> set (ID ev)" and pls: "\<forall>ev\<in>set events. CHR ''/'' \<notin> set (ID ev)"
    by auto
  note IH = Cons.IH [OF r pls]
  note ch = saveEventLocally_child [OF s pl]
  have head: "\<exists>e. stat fs1 (dir @ [ID ev @ ''.json'']) = Some (File (Json e)) \<and> ID (Event e) = ID ev"
  proof (cases "ID ev @ ''.json'' \<in> (\<lambda>ev. ID ev @ ''.json'') ` set events")
    case True
    then obtain ev' where "ev' \<in> set events" and "ID ev' = ID ev" by auto
    with IH show ?thesis by metis
  next
    case False
    with IH have "stat fs1 (dir @ [ID ev @ ''.json'']) = stat fs' (dir @ [ID ev @ ''.json''])"
      by blast
    with ch show ?thesis by simp
  qed
  have other: "stat fs1 (dir @ [n]) = stat fs (dir @ [n])"
    if "n \<notin> (\<lambda>ev. ID ev @ ''.json'') ` set (ev # events)" for n
  proof -
    from that have "n \<noteq> ID ev @ ''.json''" and "n \<notin> (\<lambda>ev. ID ev @ ''.json'') ` set events"
      by auto
    with IH ch show ?thesis by simp
  qed
  from head other IH show ?case by auto
qed

lemma os_Remove_ok: "os_Remove fs p = Inr fs' \<Longrightarrow> fs' = AList.delete p fs"
  by (auto simp: os_Remove_def split: option.splits node.splits if_splits)

lemma removeLocalEvents_loop_ok:
  assumes "removeLocalEvents_loop dir events files fs = (None, fs')"
    and "\<forall>f\<in>set files. plainName (fst f)"
  shows "stat fs' (dir @ [n]) =
           (if \<exists>f\<in>set files. fst f = n \<and> removable events f then None
            else stat fs (dir @ [n]))
         \<and> stat fs' dir = stat fs dir"
  using assms
proof (induction files arbitrary: fs)
  case Nil
  then show ?case by simp
next
  case (Cons f files)
  from Cons.prems(2) have pf: "path_Join dir (fst f) = dir @ [fst f]"
    and ps: "\<forall>f\<in>set files. plainName (fst f)"
    by (simp_all add: path_Join_plainName)
  show ?case
  proof (cases "removable events f")
    case True
    with Cons.prems(1) obtain fs2 where rm: "os_Remove fs (dir @ [fst f]) = Inr fs2"
      and r: "removeLocalEvents_loop dir events files fs2 = (None, fs')"
      by (auto simp: removable_def pf Let_def split: sum.splits)
    from os_Remove_ok [OF rm] have fs2: "fs2 = AList.delete (dir @ [fst f]) fs" .
    from Cons.IH [OF r ps] True show ?thesis
      by (auto simp: fs2 stat_delete)
  next
    case False
    with Cons.prems(1) have r: "removeLocalEvents_loop dir events files fs = (None, fs')"
      by (auto simp: removable_def Let_def split: if_splits)
    from Cons.IH [OF r ps] False show ?thesis
      by auto
  qed
qed


lemma loadEvent_child:
  "plainName n \<Longrightarrow> loadEvent dir fs n = Inr e \<longleftrightarrow> stat fs (dir @ [n]) = Some (File (Json e))"
  by (simp add: loadEvent_iff path_Join_plainName)

lemma set_storedIDs:
  assumes "stat fs dir = Some Dir"
  shows "set (storedIDs fs dir) =
           {strings_TrimSuffix n ''.json'' | n.
              stat fs (dir @ [n]) \<noteq> None \<and> stat fs (dir @ [n]) \<noteq> Some Dir
              \<and> strings_HasSuffix n ''.json''}"
proof -
  from assms obtain files where rd: "os_ReadDir fs dir = Inr files"
    by (simp add: os_ReadDir_def)
  have "set (storedIDs fs dir) =
          (\<lambda>f. strings_TrimSuffix (fst f) ''.json'')
            ` {f \<in> set files. \<not> snd f \<and> strings_HasSuffix (fst f) ''.json''}"
    by (auto simp: storedIDs_def rd)
  also have "\<dots> = {strings_TrimSuffix n ''.json'' | n.
              stat fs (dir @ [n]) \<noteq> None \<and> stat fs (dir @ [n]) \<noteq> Some Dir
              \<and> strings_HasSuffix n ''.json''}"
  proof (intro set_eqI iffI)
    fix x assume "x \<in> (\<lambda>f. strings_TrimSuffix (fst f) ''.json'')
            ` {f \<in> set files. \<not> snd f \<and> strings_HasSuffix (fst f) ''.json''}"
    then obtain n b where "(n, b) \<in> set files" "\<not> b" "strings_HasSuffix n ''.json''"
      and "x = strings_TrimSuffix n ''.json''" by auto
    then show "x \<in> {strings_TrimSuffix n ''.json'' | n.
              stat fs (dir @ [n]) \<noteq> None \<and> stat fs (dir @ [n]) \<noteq> Some Dir
              \<and> strings_HasSuffix n ''.json''}"
      unfolding in_ReadDir [OF rd] by blast
  next
    fix x assume "x \<in> {strings_TrimSuffix n ''.json'' | n.
              stat fs (dir @ [n]) \<noteq> None \<and> stat fs (dir @ [n]) \<noteq> Some Dir
              \<and> strings_HasSuffix n ''.json''}"
    then obtain n where x: "x = strings_TrimSuffix n ''.json''"
      and n: "stat fs (dir @ [n]) \<noteq> None" "stat fs (dir @ [n]) \<noteq> Some Dir"
        "strings_HasSuffix n ''.json''" by blast
    from n(1,2) have "(n, False) \<in> set files"
      unfolding in_ReadDir [OF rd] by simp
    with n(3) x show "x \<in> (\<lambda>f. strings_TrimSuffix (fst f) ''.json'')
            ` {f \<in> set files. \<not> snd f \<and> strings_HasSuffix (fst f) ''.json''}"
      by force
  qed
  finally show ?thesis .
qed

lemma jsonTime_clock: "jsonTime (clock 14 0)" "jsonTime (clock 14 30)" "jsonTime 0"
  by (simp_all add: jsonTime_def clock_def Hour_def Minute_def Second_def)

lemma sync_abc:
  "syncLocalEvents [''events''] abcStore [Event (named ''A''), Event (named ''C'')] = (None, acStore)"
  by (simp add: syncLocalEvents_def saveEventLocally_def notExist_def loadEvent_def
      os_ReadFile_def os_WriteFile_def json_Unmarshal_def json_MarshalIndent_def jsonTime_clock
      removeLocalEventsNotInCalendar_def os_ReadDir_def os_Remove_def
      strings_HasSuffix_def strings_TrimSuffix_def
      path_Join_def cleanStep_def stat_def abcStore_def acStore_def named_def reminded_def meeting_def)

lemma stored_ac: "storedIDs acStore [''events''] = [''A'', ''C'']"
  by (simp add: storedIDs_def os_ReadDir_def stat_def acStore_def strings_HasSuffix_def strings_TrimSuffix_def)

lemma proper_abc: "properNames abcStore [''events'']"
  by (simp add: properNames_def abcStore_def plainName_def)

lemma sync_traversal_loop:
  "syncLocalEvents_loop [''events''] emptyStore [traversal]
     = (None, [([''events''], Dir),
               ([''events'', ''A.json''],
                File (Json \<lparr>Event = traversal, StartAnnounced = False, CheckStartAnnounced = False,
                             EndAnnounced = False, LastTimeReminded = 0\<rparr>))])"
  by (simp add: saveEventLocally_def notExist_def loadEvent_def
      os_ReadFile_def os_WriteFile_def json_Unmarshal_def json_MarshalIndent_def jsonTime_clock
      path_Join_def cleanStep_def stat_def emptyStore_def traversal_def meeting_def)

lemma sync_traversal:
  "syncLocalEvents [''events''] emptyStore [traversal] = (None, emptyStore)"
  unfolding syncLocalEvents_def sync_traversal_loop
  by (simp add: removeLocalEventsNotInCalendar_def os_ReadDir_def os_Remove_def
      strings_HasSuffix_def strings_TrimSuffix_def
      path_Join_def cleanStep_def stat_def emptyStore_def traversal_def)

text \<open>
  Reconciliation for identifiers that are names: when no identifier of the remote events
  contains a slash, every entry of the events directory has a proper name, and the
  reconciliation succeeds, the identifiers of the records in the directory are exactly
  the identifiers of the remote events; every remote event has a record with its
  identifier; and every record written by the saving step is still there after the
  deleting step.
\<close>

lemma syncLocalEvents_prunes:
  assumes plain: "\<forall>ev\<in>set events. CHR ''/'' \<notin> set (ID ev)"
    and proper: "properNames fs eventPath"
    and ok: "syncLocalEvents eventPath fs events = (None, fs')"
  shows "set (storedIDs fs' eventPath) = ID ` set events
     \<and> (\<forall>ev\<in>set events. \<exists>e. loadEvent eventPath fs' (ID ev @ ''.json'') = Inr e
                                 \<and> ID (Event e) = ID ev)
     \<and> (\<exists>fs1. syncLocalEvents_loop eventPath fs events = (None, fs1)
           \<and> (\<forall>ev\<in>set events. stat fs' (eventPath @ [ID ev @ ''.json''])
                                  = stat fs1 (eventPath @ [ID ev @ ''.json''])))"
proof -
  let ?name = "\<lambda>ev. ID ev @ ''.json''"
  from ok obtain fs1 where l: "syncLocalEvents_loop eventPath fs events = (None, fs1)"
    and rm: "removeLocalEventsNotInCalendar eventPath fs1 events = (None, fs')"
    by (auto simp: syncLocalEvents_def split: prod.splits option.splits)
  from rm obtain files where rd: "os_ReadDir fs1 eventPath = Inr files"
    and rl: "removeLocalEvents_loop eventPath events files fs1 = (None, fs')"
    by (auto simp: removeLocalEventsNotInCalendar_def split: sum.splits)
  note loop = syncLocalEvents_loop_ok [OF l plain]
  have saved: "\<exists>e. stat fs1 (eventPath @ [?name ev]) = Some (File (Json e)) \<and> ID (Event e) = ID ev"
    if "ev \<in> set events" for ev
    using loop that by blast
  have same: "stat fs1 (eventPath @ [n]) = stat fs (eventPath @ [n])"
    if "n \<notin> ?name ` set events" for n
    using loop that by blast
  have proper1: "plainName n" if n: "stat fs1 (eventPath @ [n]) \<noteq> None" for n
  proof (cases "n \<in> ?name ` set events")
    case True
    with plain show ?thesis by (auto simp: plainName_json)
  next
    case False
    with same n have "stat fs (eventPath @ [n]) \<noteq> None" by simp
    with proper show ?thesis by (simp add: properNames_iff)
  qed
  have names: "\<forall>f\<in>set files. plainName (fst f)"
  proof
    fix f assume "f \<in> set files"
    then have "(fst f, snd f) \<in> set files" by simp
    then have "stat fs1 (eventPath @ [fst f]) \<noteq> None"
      unfolding in_ReadDir [OF rd] by simp
    then show "plainName (fst f)" by (rule proper1)
  qed
  note removed = removeLocalEvents_loop_ok [OF rl names]
  have dir: "stat fs' eventPath = Some Dir"
    using removed set_ReadDir(2) [OF rd] by simp
  have kept: "stat fs' (eventPath @ [?name ev]) = stat fs1 (eventPath @ [?name ev])"
    if ev: "ev \<in> set events" for ev
  proof -
    have "\<not> removable events f" if "fst f = ?name ev" for f
      using that ev by (auto simp: removable_def TrimSuffix_append list_ex_iff)
    then have "\<not> (\<exists>f\<in>set files. fst f = ?name ev \<and> removable events f)" by blast
    with removed [of "?name ev"] show ?thesis by simp
  qed
  have loaded: "\<exists>e. loadEvent eventPath fs' (?name ev) = Inr e \<and> ID (Event e) = ID ev"
    if ev: "ev \<in> set events" for ev
  proof -
    from plain ev have "plainName (?name ev)" by (simp add: plainName_json)
    with saved [OF ev] kept [OF ev] show ?thesis
      by (auto simp: loadEvent_child)
  qed
  have ids: "set (storedIDs fs' eventPath) = ID ` set events"
  proof (intro set_eqI iffI)
    fix x assume "x \<in> set (storedIDs fs' eventPath)"
    then obtain n where x: "x = strings_TrimSuffix n ''.json''"
      and n: "stat fs' (eventPath @ [n]) \<noteq> None" "stat fs' (eventPath @ [n]) \<noteq> Some Dir"
      and suf: "strings_HasSuffix n ''.json''"
      unfolding set_storedIDs [OF dir] by blast
    from n(1) removed [of n]
    have nr: "\<not> (\<exists>f\<in>set files. fst f = n \<and> removable events f)"
      and st: "stat fs' (eventPath @ [n]) = stat fs1 (eventPath @ [n])"
      by (auto split: if_splits)
    from n st have "(n, False) \<in> set files"
      unfolding in_ReadDir [OF rd] by simp
    with nr have "\<not> removable events (n, False)" by force
    with suf have "list_ex (\<lambda>event. ID event = strings_TrimSuffix n ''.json'') events"
      by (simp add: removable_def)
    then obtain event where "event \<in> set events" and "ID event = strings_TrimSuffix n ''.json''"
      unfolding list_ex_iff by blast
    with x show "x \<in> ID ` set events"
      by (metis imageI)
  next
    fix x assume "x \<in> ID ` set events"
    then obtain ev where ev: "ev \<in> set events" and x: "x = ID ev" by auto
    from saved [OF ev] kept [OF ev]
    have "stat fs' (eventPath @ [?name ev]) \<noteq> None" "stat fs' (eventPath @ [?name ev]) \<noteq> Some Dir"
      by auto
    moreover have "strings_HasSuffix (?name ev) ''.json''"
      by (rule HasSuffix_append)
    moreover have "strings_TrimSuffix (?name ev) ''.json'' = x"
      by (simp add: TrimSuffix_append x)
    ultimately show "x \<in> set (storedIDs fs' eventPath)"
      unfolding set_storedIDs [OF dir] by blast
  qed
  from ids loaded l kept show ?thesis by blast
qed

lemma syncLocalEvents_prunes_example:
  "CHR ''/'' \<notin> set (ID (Event (named ''A''))) \<and> CHR ''/'' \<notin> set (ID (Event (named ''C'')))
   \<and> properNames abcStore [''events'']
   \<and> syncLocalEvents [''events''] abcStore [Event (named ''A''), Event (named ''C'')]
       = (None, acStore)
   \<and> set (storedIDs abcStore [''events'']) = {''A'', ''B'', ''C''}
   \<and> set (storedIDs acStore [''events'']) = {''A'', ''C''}"
proof -
  have h1: "\<forall>ev\<in>set [Event (named ''A''), Event (named ''C'')]. CHR ''/'' \<notin> set (ID ev)"
    by (simp add: named_def)
  have b: "set (storedIDs abcStore [''events'']) = {''A'', ''B'', ''C''}"
    by (simp add: storedIDs_def os_ReadDir_def stat_def abcStore_def strings_HasSuffix_def
        strings_TrimSuffix_def)
  from syncLocalEvents_prunes [OF h1 proper_abc sync_abc] h1 proper_abc sync_abc b
  show ?thesis by (simp add: named_def)
qed

lemma sync_escaping:
  "syncLocalEvents [''events''] emptyStore [escaping]
     = (None, [([''events''], Dir),
               ([''escape.json''],
                File (Json \<lparr>Event = escaping, StartAnnounced = False,
                             CheckStartAnnounced = False, EndAnnounced = False,
                             LastTimeReminded = 0\<rparr>))])"
  by (simp add: syncLocalEvents_def saveEventLocally_def notExist_def loadEvent_def
      os_ReadFile_def os_WriteFile_def json_Unmarshal_def json_MarshalIndent_def jsonTime_clock
      removeLocalEventsNotInCalendar_def os_ReadDir_def
      path_Join_def cleanStep_def stat_def emptyStore_def escaping_def meeting_def)

text \<open>
  C8 on the code: the file of a record is \<^verbatim>\<open>path.Join(eventPath, ID + ".json")\<close>, and
  the identifier is not checked.  The record of the remote event \<^verbatim>\<open>x/../A\<close> is written
  to \<^verbatim>\<open>A.json\<close> by the saving step and removed by the deleting step of the same
  reconciliation, which looks for the identifier \<^verbatim>\<open>A\<close> among the remote events; the
  record of the remote event \<^verbatim>\<open>../escape\<close> is written outside the events directory.
  Both reconciliations succeed, and the store has no record for the remote event.
\<close>

theorem syncLocalEvents_traversal_deletes_saved:
  "ID traversal = ''x/../A''
   \<and> syncLocalEvents_loop [''events''] emptyStore [traversal]
       = (None, [([''events''], Dir),
                 ([''events'', ''A.json''],
                  File (Json \<lparr>Event = traversal, StartAnnounced = False,
                               CheckStartAnnounced = False, EndAnnounced = False,
                               LastTimeReminded = 0\<rparr>))])
   \<and> syncLocalEvents [''events''] emptyStore [traversal] = (None, emptyStore)
   \<and> storedIDs emptyStore [''events''] = []
   \<and> set (storedIDs emptyStore [''events'']) \<noteq> ID ` set [traversal]
   \<and> ID escaping = ''../escape''
   \<and> syncLocalEvents [''events''] emptyStore [escaping]
       = (None, [([''events''], Dir),
                 ([''escape.json''],
                  File (Json \<lparr>Event = escaping, StartAnnounced = False,
                               CheckStartAnnounced = False, EndAnnounced = False,
                               LastTimeReminded = 0\<rparr>))])
   \<and> storedIDs [([''events''], Dir),
                 ([''escape.json''],
                  File (Json \<lparr>Event = escaping, StartAnnounced = False,
                               CheckStartAnnounced = False, EndAnnounced = False,
                               LastTimeReminded = 0\<rparr>))] [''events''] = []"
proof -
  have "storedIDs emptyStore [''events''] = []"
    by (simp add: storedIDs_def os_ReadDir_def stat_def emptyStore_def)
  moreover have "storedIDs [([''events''], Dir),
                 ([''escape.json''],
                  File (Json \<lparr>Event = escaping, StartAnnounced = False,
                               CheckStartAnnounced = False, EndAnnounced = False,
                               LastTimeReminded = 0\<rparr>))] [''events''] = []"
    by (simp add: storedIDs_def os_ReadDir_def stat_def)
  ultimately show ?thesis
    using sync_traversal_loop sync_traversal sync_escaping
    by (simp add: traversal_def escaping_def)
qed

section \<open>A write stopped half way\<close>

lemma os_WriteFile_crash_last:
  assumes "os_WriteFile fs p c = Inr fs'"
  shows "last (os_WriteFile_crash fs p c) = fs'"
    and "AList.update p (File (Garbage [])) fs \<in> set (os_WriteFile_crash fs p c)"
  using assms
  by (auto simp: os_WriteFile_crash_def os_WriteFile_def split: if_splits)

lemma updateEvent_crash_general:
  assumes "updateEvent eventPath fs e = (None, fs')"
  shows "last (updateEvent_crash eventPath fs e) = fs'
     \<and> (\<exists>s\<in>set (updateEvent_crash eventPath fs e).
           loadEvent eventPath s (ID (Event e) @ ''.json'')
             = Inl (UnmarshalFailed (ID (Event e) @ ''.json'')))"
proof -
  let ?p = "path_Join eventPath (ID (Event e) @ ''.json'')"
  from assms have m: "json_MarshalIndent e = Inr (Json e)"
    by (auto simp: updateEvent_def json_MarshalIndent_def split: if_splits)
  with assms have w: "os_WriteFile fs ?p (Json e) = Inr fs'"
    by (auto simp: updateEvent_def split: sum.splits)
  then have "?p \<noteq> []"
    by (auto simp: os_WriteFile_def split: if_splits)
  then have "loadEvent eventPath (AList.update ?p (File (Garbage [])) fs) (ID (Event e) @ ''.json'')
          = Inl (UnmarshalFailed (ID (Event e) @ ''.json''))"
    by (simp add: loadEvent_def os_ReadFile_def stat_update json_Unmarshal_def)
  with os_WriteFile_crash_last [OF w] show ?thesis
    by (auto simp: updateEvent_crash_def m)
qed

lemma tempPath_neq: "tempPath p rnd \<noteq> p"
  by (cases p rule: rev_cases) (simp_all add: tempPath_def)

lemma writeFileAtomically_crash_target:
  assumes "s \<in> set (writeFileAtomically_crash fs p data rnd)"
  shows "stat s p = stat fs p \<or> stat s p = Some (File data)"
proof -
  let ?t = "tempPath p rnd"
  have neq: "p \<noteq> ?t" using tempPath_neq [of p rnd] by simp
  have tmp: "stat (AList.update ?t n fs) p = stat fs p" for n
    using neq by (simp add: stat_update)
  have final: "stat (snd (writeFileAtomically fs p data rnd)) p = stat fs p
      \<or> stat (snd (writeFileAtomically fs p data rnd)) p = Some (File data)"
    using neq
    by (auto simp: writeFileAtomically_def os_WriteFile_def os_Rename_def os_Remove_def
        stat_update stat_delete split: sum.splits option.splits node.splits if_splits)
  from assms consider "s \<in> set (os_WriteFile_crash fs ?t data)"
    | "s = snd (writeFileAtomically fs p data rnd)"
    by (auto simp: writeFileAtomically_crash_def)
  then show ?thesis
  proof cases
    case 1
    then show ?thesis
      using tmp by (auto simp: os_WriteFile_crash_def os_WriteFile_def split: if_splits)
  next
    case 2
    with final show ?thesis by simp
  qed
qed



lemma path_A: "path_Join [''events''] ''A.json'' = [''events'', ''A.json'']"
  by (simp add: path_Join_def cleanStep_def)

lemma marshal_ended: "json_MarshalIndent ended = Inr (Json ended)"
  by (simp add: json_MarshalIndent_def jsonTime_clock ended_def reminded_def meeting_def)

text \<open>
  C10 on the code: \<^verbatim>\<open>updateEvent\<close> (and \<^verbatim>\<open>saveEventLocally\<close> in the same way) writes
  the record with \<^verbatim>\<open>os.WriteFile\<close> on the record file itself.  Updating the record of the
  meeting whose end has just been announced passes through a file system in which the
  record file is empty; there the record cannot be loaded and \<^verbatim>\<open>loadTodayEvents\<close> fails.
\<close>

theorem updateEvent_crash_half_written:
  "loadEvent [''events''] announcedStore ''A.json'' = Inr reminded
   \<and> updateEvent [''events''] announcedStore ended = (None, endedStore)
   \<and> updateEvent_crash [''events''] announcedStore ended
       = [announcedStore, truncatedStore, endedStore]
   \<and> loadEvent [''events''] truncatedStore ''A.json'' = Inl (UnmarshalFailed ''A.json'')
   \<and> loadTodayEvents [''events''] (clock 14 20) truncatedStore
       = Inl (LoadEventFailed ''A.json'' (UnmarshalFailed ''A.json''))"
proof -
  have i: "ID (Event ended) @ ''.json'' = ''A.json''"
    by (simp add: ended_def reminded_def meeting_def)
  have l: "loadEvent [''events''] announcedStore ''A.json'' = Inr reminded"
    by (simp add: loadEvent_iff path_A announcedStore_def stat_def)
  have u: "updateEvent [''events''] announcedStore ended = (None, endedStore)"
    by (simp add: updateEvent_def marshal_ended i path_A os_WriteFile_def announcedStore_def
        endedStore_def stat_def)
  have c: "updateEvent_crash [''events''] announcedStore ended
       = [announcedStore, truncatedStore, endedStore]"
    by (simp add: updateEvent_crash_def os_WriteFile_crash_def marshal_ended i path_A
        os_WriteFile_def announcedStore_def truncatedStore_def endedStore_def stat_def)
  have t: "loadEvent [''events''] truncatedStore ''A.json'' = Inl (UnmarshalFailed ''A.json'')"
    by (simp add: loadEvent_def os_ReadFile_def json_Unmarshal_def path_A truncatedStore_def
        stat_def)
  have d: "os_ReadDir truncatedStore [''events''] = Inr [(''A.json'', False)]"
    by (simp add: os_ReadDir_def truncatedStore_def stat_def)
  have a: "loadTodayEvents [''events''] (clock 14 20) truncatedStore
       = Inl (LoadEventFailed ''A.json'' (UnmarshalFailed ''A.json''))"
    by (simp add: loadTodayEvents_def d t)
  from l u c t a show ?thesis by simp
qed

end
